theory Spec2Isabelle
  imports Complex_Main "HOL-Library.AList" "HOL-Library.Multiset"
begin

section \<open>Data model\<close>

text \<open>
  A Python \<open>str\<close> is a sequence of Unicode code points and \<open>len\<close> counts code points,
  so a string is modelled as the list of its code points. \<open>lit\<close> embeds an ASCII literal.
  A \<open>float\<close> score is the rational number it denotes. \<open>fuse\<close> computes the scores without
  rounding; \<open>fuse_arith\<close> further down takes the rounding of the machine as a parameter.
\<close>

type_synonym pystr = "nat list"

definition lit :: "string \<Rightarrow> pystr" where
  "lit s = map of_char s"

datatype error =
    ZeroDivisionError
  | OverflowError
  | KeyError
  | ValidationError
  | BackendError
  | HTTPException nat

text \<open>
  \<open>RetrievalResult\<close> (dense and sparse retrievers), \<open>GraphRetrievalResult\<close> and
  \<open>FusedResult\<close> share their first ten fields; the graph result adds \<open>graph_context\<close>
  (absent on the others, where \<open>getattr(r, "graph_context", {})\<close> yields the empty dict)
  and the fused result adds \<open>sources\<close>.
\<close>

record graph_ctx =
  gc_type :: pystr
  gc_entities :: "pystr list"
  gc_weight :: rat

record passage =
  id_p :: int
  book_id :: int
  book_name :: pystr
  chapter_start :: int
  verse_start :: int
  chapter_end :: int
  verse_end :: int
  title :: pystr
  text_p :: pystr
  score :: rat

record retrieval_result = passage +
  graph_context :: "graph_ctx option"

record fused_result = passage +
  sources :: "pystr list"

text \<open>The settings the pipeline reads (core/config.py), with the defaults of the source.\<close>

record settings =
  RRF_K :: int
  MAX_RETRIEVE_RESULTS :: int
  MAX_CONTEXT_TOKENS :: int
  TOP_K_PERICOPES :: int
  LLM_MODEL_NAME :: pystr

definition default_settings :: settings where
  "default_settings =
     \<lparr>RRF_K = 60, MAX_RETRIEVE_RESULTS = 20, MAX_CONTEXT_TOKENS = 4000, TOP_K_PERICOPES = 5,
      LLM_MODEL_NAME = lit ''gemma3:4b''\<rparr>"

section \<open>Rank fusion (services/fusion.py)\<close>

text \<open>\<open>RRFFusion.__init__\<close>: \<open>self.k = k or settings.RRF_K\<close>; \<open>None\<close> and \<open>0\<close> are falsy.\<close>

definition RRFFusion_init :: "settings \<Rightarrow> int option \<Rightarrow> int" where
  "RRFFusion_init cfg k =
     (case k of None \<Rightarrow> RRF_K cfg | Some v \<Rightarrow> if v = 0 then RRF_K cfg else v)"

text \<open>
  The three dictionaries of \<open>fuse\<close>. Python dictionaries iterate in insertion order and
  \<open>sorted\<close> reads \<open>doc_scores.items()\<close> in that order, so they are association lists:
  \<open>AList.update\<close> overwrites a present key in place and appends a new key at the end.
\<close>

record fuse_state =
  doc_scores :: "(int \<times> rat) list"
  doc_data :: "(int \<times> retrieval_result) list"
  doc_sources :: "(int \<times> pystr list) list"

definition empty_fuse_state :: fuse_state where
  "empty_fuse_state = \<lparr>doc_scores = [], doc_data = [], doc_sources = []\<rparr>"

text \<open>Reading a \<open>defaultdict\<close>: a missing key yields the default (and is then stored by the
  assignment that follows in both uses below).\<close>

definition get_default :: "'v \<Rightarrow> ('k \<times> 'v) list \<Rightarrow> 'k \<Rightarrow> 'v" where
  "get_default d al key = (case map_of al key of None \<Rightarrow> d | Some v \<Rightarrow> v)"

text \<open>The body of the inner loop, after \<open>rrf_score\<close> has been computed.\<close>

definition fuse_body :: "pystr \<Rightarrow> rat \<Rightarrow> retrieval_result \<Rightarrow> fuse_state \<Rightarrow> fuse_state" where
  "fuse_body source_name rrf_score result st =
     (let doc_id = id_p result;
          scores' = AList.update doc_id (get_default 0 (doc_scores st) doc_id + rrf_score)
                      (doc_scores st);
          data' = (if map_of (doc_data st) doc_id = None
                   then AList.update doc_id result (doc_data st) else doc_data st);
          srcs = get_default [] (doc_sources st) doc_id;
          sources' = AList.update doc_id
                       (if source_name \<in> set srcs then srcs else srcs @ [source_name])
                       (doc_sources st)
      in \<lparr>doc_scores = scores', doc_data = data', doc_sources = sources'\<rparr>)"

text \<open>\<open>for rank, result in enumerate(results, start=1)\<close>; \<open>1.0 / (self.k + rank)\<close> raises
  \<open>ZeroDivisionError\<close> when \<open>k + rank = 0\<close>.\<close>

fun fuse_ranks :: "int \<Rightarrow> pystr \<Rightarrow> nat \<Rightarrow> retrieval_result list \<Rightarrow> fuse_state \<Rightarrow> error + fuse_state" where
  "fuse_ranks k source_name rank [] st = Inr st"
| "fuse_ranks k source_name rank (result # results) st =
     (if k + int rank = 0 then Inl ZeroDivisionError
      else fuse_ranks k source_name (Suc rank) results
             (fuse_body source_name (1 / of_int (k + int rank)) result st))"

text \<open>\<open>for source_name, results in result_lists\<close>.\<close>

fun fuse_lists :: "int \<Rightarrow> (pystr \<times> retrieval_result list) list \<Rightarrow> fuse_state \<Rightarrow> error + fuse_state" where
  "fuse_lists k [] st = Inr st"
| "fuse_lists k ((source_name, results) # rest) st =
     (case fuse_ranks k source_name 1 results st of
        Inl e \<Rightarrow> Inl e
      | Inr st' \<Rightarrow> fuse_lists k rest st')"

text \<open>
  \<open>sorted(doc_scores.items(), key=lambda x: x[1], reverse=True)\<close>: Python's sort is stable
  and stays stable under \<open>reverse=True\<close>, which is a stable ascending sort on the negated
  key; \<open>sort_key\<close> is a stable insertion sort.
\<close>

definition sorted_desc :: "(int \<times> rat) list \<Rightarrow> (int \<times> rat) list" where
  "sorted_desc items = sort_key (\<lambda>x. - snd x) items"

text \<open>The second loop: \<open>doc_data[doc_id]\<close> raises \<open>KeyError\<close> on a missing key,
  \<open>doc_sources\<close> is a \<open>defaultdict(list)\<close>.\<close>

fun build_fused :: "fuse_state \<Rightarrow> (int \<times> rat) list \<Rightarrow> error + fused_result list" where
  "build_fused st [] = Inr []"
| "build_fused st ((doc_id, rrf_score) # items) =
     (case map_of (doc_data st) doc_id of
        None \<Rightarrow> Inl KeyError
      | Some data \<Rightarrow>
          (case build_fused st items of
             Inl e \<Rightarrow> Inl e
           | Inr fused_results \<Rightarrow>
               Inr (\<lparr>id_p = doc_id, book_id = book_id data, book_name = book_name data,
                     chapter_start = chapter_start data, verse_start = verse_start data,
                     chapter_end = chapter_end data, verse_end = verse_end data,
                     title = title data, text_p = text_p data, score = rrf_score,
                     sources = get_default [] (doc_sources st) doc_id\<rparr> # fused_results)))"

definition fuse :: "int \<Rightarrow> (pystr \<times> retrieval_result list) list \<Rightarrow> error + fused_result list" where
  "fuse k result_lists =
     (case fuse_lists k result_lists empty_fuse_state of
        Inl e \<Rightarrow> Inl e
      | Inr st \<Rightarrow> build_fused st (sorted_desc (doc_scores st)))"

text \<open>
  The vocabulary of the fusion claims. \<open>all_ids\<close> lists the ids of the input in the order
  the two loops meet them; \<open>ranks_of d results\<close> lists the 1-indexed ranks at which one
  source lists \<open>d\<close> and \<open>all_ranks\<close> collects them over all sources; \<open>rrf_total\<close> is the sum
  of \<open>1 / (k + r)\<close> over those ranks; \<open>first_index xs x\<close> is the position of the first \<open>x\<close>
  in \<open>xs\<close>.
\<close>

definition all_ids :: "(pystr \<times> retrieval_result list) list \<Rightarrow> int list" where
  "all_ids result_lists = concat (map (\<lambda>(source_name, results). map id_p results) result_lists)"

definition ranks_of :: "int \<Rightarrow> retrieval_result list \<Rightarrow> nat list" where
  "ranks_of d results = map fst (filter (\<lambda>(rank, result). id_p result = d) (enumerate 1 results))"

definition all_ranks :: "int \<Rightarrow> (pystr \<times> retrieval_result list) list \<Rightarrow> nat list" where
  "all_ranks d result_lists = concat (map (\<lambda>(source_name, results). ranks_of d results) result_lists)"

definition rrf_term :: "int \<Rightarrow> nat \<Rightarrow> rat" where
  "rrf_term k r = 1 / of_int (k + int r)"

definition rrf_total :: "int \<Rightarrow> (pystr \<times> retrieval_result list) list \<Rightarrow> int \<Rightarrow> rat" where
  "rrf_total k result_lists d = sum_list (map (rrf_term k) (all_ranks d result_lists))"


text \<open>For the loop invariants: the keys of an insertion-ordered dictionary after the
  keys \<open>ds\<close> have been stored in turn, the score and the keys a state holds, the invariant
  that every scored id has its payload, and the (id, score) pairs of an output.\<close>

definition add_keys :: "int list \<Rightarrow> int list \<Rightarrow> int list" where
  "add_keys ks ds = fold (\<lambda>d ks. if d \<in> set ks then ks else ks @ [d]) ds ks"

definition score_of :: "fuse_state \<Rightarrow> int \<Rightarrow> rat" where
  "score_of st d = get_default 0 (doc_scores st) d"

definition keys_of :: "fuse_state \<Rightarrow> int list" where
  "keys_of st = map fst (doc_scores st)"

definition fuse_inv :: "fuse_state \<Rightarrow> bool" where
  "fuse_inv st \<longleftrightarrow> distinct (map fst (doc_scores st)) \<and>
     (\<forall>d \<in> set (map fst (doc_scores st)). map_of (doc_data st) d \<noteq> None)"

definition pairs_of :: "fused_result list \<Rightarrow> (int \<times> rat) list" where
  "pairs_of out = map (\<lambda>f. (id_p f, score f)) out"

text \<open>Scenario B of the specification: dense ranks passages 1, 2, 3 and sparse ranks 2, 1.\<close>

definition example_result :: "int \<Rightarrow> retrieval_result" where
  "example_result i =
     \<lparr>id_p = i, book_id = 1, book_name = lit ''Gen'', chapter_start = 1, verse_start = 1,
      chapter_end = 1, verse_end = 5, title = lit ''T'', text_p = lit ''abc'', score = 1 / 2,
      graph_context = None\<rparr>"

definition scenario_B :: "(pystr \<times> retrieval_result list) list" where
  "scenario_B =
     [(lit ''dense'', [example_result 1, example_result 2, example_result 3]),
      (lit ''sparse'', [example_result 2, example_result 1])]"

definition dense_only :: "(pystr \<times> retrieval_result list) list" where
  "dense_only = [(lit ''dense'', [example_result 1, example_result 2, example_result 3])]"

section \<open>Rank fusion over the machine's arithmetic\<close>











section \<open>Context builder (services/context\_builder.py)\<close>

text \<open>\<open>int(x)\<close> on a float truncates towards zero.\<close>

definition py_int :: "rat \<Rightarrow> int" where
  "py_int x = (if 0 \<le> x then \<lfloor>x\<rfloor> else \<lceil>x\<rceil>)"

text \<open>\<open>str(i)\<close> for an \<open>int\<close>, as an f-string field renders it: decimal digits, with a
  leading minus sign (code point 45) for a negative number.\<close>

fun digits :: "nat \<Rightarrow> pystr" where
  "digits n = (if n < 10 then [48 + n] else digits (n div 10) @ [48 + n mod 10])"

declare digits.simps [simp del]

definition str_int :: "int \<Rightarrow> pystr" where
  "str_int i = (if i < 0 then 45 # digits (nat (- i)) else digits (nat i))"

text \<open>\<open>sep.join(parts)\<close>.\<close>

fun py_join :: "pystr \<Rightarrow> pystr list \<Rightarrow> pystr" where
  "py_join sep [] = []"
| "py_join sep [x] = x"
| "py_join sep (x # y # ys) = x @ sep @ py_join sep (y # ys)"

record ContextBuilder =
  max_tokens :: int
  chars_per_token :: rat

text \<open>\<open>self.max_tokens = max_tokens or settings.MAX_CONTEXT_TOKENS\<close>;
  \<open>self.chars_per_token = 1.5\<close>.\<close>

definition ContextBuilder_init :: "settings \<Rightarrow> int option \<Rightarrow> ContextBuilder" where
  "ContextBuilder_init cfg mt =
     \<lparr>max_tokens = (case mt of None \<Rightarrow> MAX_CONTEXT_TOKENS cfg
                     | Some v \<Rightarrow> if v = 0 then MAX_CONTEXT_TOKENS cfg else v),
      chars_per_token = 3 / 2\<rparr>"

definition format_reference :: "fused_result \<Rightarrow> pystr" where
  "format_reference result =
     (if chapter_start result = chapter_end result then
        (if verse_start result = verse_end result then
           book_name result @ lit '' '' @ str_int (chapter_start result) @ lit '':''
             @ str_int (verse_start result)
         else
           book_name result @ lit '' '' @ str_int (chapter_start result) @ lit '':''
             @ str_int (verse_start result) @ lit ''-'' @ str_int (verse_end result))
      else
        book_name result @ lit '' '' @ str_int (chapter_start result) @ lit '':''
          @ str_int (verse_start result) @ lit ''-'' @ str_int (chapter_end result) @ lit '':''
          @ str_int (verse_end result))"

text \<open>\<open>"\n".join(lines)\<close> with the four lines of the source; code point 10 is the newline.\<close>

definition format_pericope :: "fused_result \<Rightarrow> pystr" where
  "format_pericope result =
     (let reference = format_reference result;
          lines = [lit ''### '' @ title result,
                   lit ''**'' @ reference @ lit ''**'',
                   [],
                   text_p result]
      in py_join [10] lines)"

text \<open>One entry of the metadata list (a dict with the keys \<open>id\<close>, \<open>book\<close>, \<open>reference\<close>,
  \<open>title\<close>, \<open>score\<close>, \<open>sources\<close>).\<close>

record context_meta =
  meta_id :: int
  meta_book :: pystr
  meta_reference :: pystr
  meta_title :: pystr
  meta_score :: rat
  meta_sources :: "pystr list"

definition meta_of :: "fused_result \<Rightarrow> context_meta" where
  "meta_of result =
     \<lparr>meta_id = id_p result, meta_book = book_name result,
      meta_reference = format_reference result, meta_title = title result,
      meta_score = score result, meta_sources = sources result\<rparr>"

text \<open>The string returned for an empty result list (nine code points of Chinese text)
  and the separator \<open>"\n\n---\n\n"\<close>.\<close>

definition no_results_text :: pystr where
  "no_results_text = [27794, 26377, 25214, 21040, 30456, 38364, 32147, 25991, 12290]"

definition separator :: pystr where
  "separator = [10, 10, 45, 45, 45, 10, 10]"

text \<open>\<open>max_chars = int(self.max_tokens * self.chars_per_token)\<close>; the float product is
  taken as exact (it is, for every budget below \<open>2^52\<close>).\<close>

definition max_chars :: "ContextBuilder \<Rightarrow> int" where
  "max_chars self = py_int (of_int (max_tokens self) * chars_per_token self)"

text \<open>The loop of \<open>build_with_metadata\<close>, with its three accumulators; the \<open>break\<close> returns
  what has been collected.\<close>

fun build_loop :: "int \<Rightarrow> fused_result list \<Rightarrow> pystr list \<Rightarrow> context_meta list \<Rightarrow> int
    \<Rightarrow> pystr list \<times> context_meta list" where
  "build_loop mc [] context_parts metadata total_chars = (context_parts, metadata)"
| "build_loop mc (result # results) context_parts metadata total_chars =
     (let pericope_text = format_pericope result;
          part_length = int (length pericope_text)
      in if total_chars + part_length > mc \<and> context_parts \<noteq> []
         then (context_parts, metadata)
         else build_loop mc results (context_parts @ [pericope_text])
                (metadata @ [meta_of result]) (total_chars + part_length))"

definition build_with_metadata :: "ContextBuilder \<Rightarrow> fused_result list \<Rightarrow> pystr \<times> context_meta list" where
  "build_with_metadata self results =
     (if results = [] then (no_results_text, [])
      else (case build_loop (max_chars self) results [] [] 0 of
              (context_parts, metadata) \<Rightarrow> (py_join separator context_parts, metadata)))"

text \<open>The summed length of the formatted segments of a list of results.\<close>

definition segments_length :: "fused_result list \<Rightarrow> int" where
  "segments_length rs = (\<Sum>r\<leftarrow>rs. int (length (format_pericope r)))"

text \<open>A fused result whose text is \<open>n\<close> letters long; its segment has \<open>21 + n\<close> characters.\<close>

definition example_fused :: "int \<Rightarrow> nat \<Rightarrow> fused_result" where
  "example_fused i n =
     \<lparr>id_p = i, book_id = 1, book_name = lit ''Gen'', chapter_start = 1, verse_start = 1,
      chapter_end = 1, verse_end = 5, title = lit ''T'', text_p = replicate n 97,
      score = 1 / 61, sources = [lit ''dense'']\<rparr>"

text \<open>Two short results, and two whose segments are 3000 characters each.\<close>

definition two_short :: "fused_result list" where
  "two_short = [example_fused 1 3, example_fused 2 4]"

definition two_long :: "fused_result list" where
  "two_long = [example_fused 1 2979, example_fused 2 2979]"

section \<open>String helpers, the environment and the call trace\<close>

text \<open>\<open>str.isspace\<close>: the code points Python treats as whitespace.\<close>

definition is_space :: "nat \<Rightarrow> bool" where
  "is_space c \<longleftrightarrow>
     c \<in> set [9, 10, 11, 12, 13, 28, 29, 30, 31, 32, 133, 160, 5760, 8232, 8233, 8239, 8287, 12288]
     \<or> (8192 \<le> c \<and> c \<le> 8202)"

definition py_strip :: "pystr \<Rightarrow> pystr" where
  "py_strip s = rev (dropWhile is_space (rev (dropWhile is_space s)))"

text \<open>\<open>s.split(",")\<close> for a one-character separator: an empty string splits into one
  empty piece.\<close>

fun py_split :: "nat \<Rightarrow> pystr \<Rightarrow> pystr list" where
  "py_split c [] = [[]]"
| "py_split c (x # xs) =
     (if x = c then [] # py_split c xs
      else (case py_split c xs of
              [] \<Rightarrow> [[x]]
            | w # ws \<Rightarrow> (x # w) # ws))"

text \<open>\<open>t in s\<close> on strings.\<close>

fun is_substring :: "pystr \<Rightarrow> pystr \<Rightarrow> bool" where
  "is_substring t [] = (t = [])"
| "is_substring t (x # xs) = (take (length t) (x # xs) = t \<or> is_substring t xs)"

text \<open>
  \<open>str.upper\<close>. On ASCII it maps \<open>a\<close>..\<open>z\<close> to \<open>A\<close>..\<open>Z\<close> and leaves the rest alone; for the
  other code points Python consults the Unicode case table, which is not part of the
  repository and is a parameter here (a code point may expand to several).
\<close>

definition py_upper :: "(nat \<Rightarrow> pystr) \<Rightarrow> pystr \<Rightarrow> pystr" where
  "py_upper tbl s =
     concat (map (\<lambda>c. if 97 \<le> c \<and> c \<le> 122 then [c - 32] else if c < 128 then [c] else tbl c) s)"

text \<open>\<open>xs[:n]\<close>: a negative \<open>n\<close> counts from the end.\<close>

definition py_take :: "int \<Rightarrow> 'a list \<Rightarrow> 'a list" where
  "py_take n xs = (if 0 \<le> n then take (nat n) xs else take (nat (int (length xs) + n)) xs)"

text \<open>A row returned by one of the three Cypher queries: the passage columns, the collected
  verse texts, the aggregated mention count or weight, and the collected entity names.\<close>

record graph_row =
  row_id :: int
  row_book_id :: int
  row_book_name :: pystr
  row_chapter_start :: int
  row_verse_start :: int
  row_chapter_end :: int
  row_verse_end :: int
  row_title :: pystr
  row_verse_texts :: "pystr list"
  row_weight :: rat
  row_names :: "pystr list"

text \<open>
  Everything outside the pipeline is a field of the environment: the settings, whether
  \<open>Neo4jClient.is_available()\<close> holds, the replies of the LLM at its three call sites (or
  the exception raised), the two database retrievers, the three graph queries, the time
  the request takes (the wall clock is taken not to run backwards), the Unicode case table
  and the iteration order of a Python \<open>set\<close> of strings.
\<close>

record env =
  settings :: settings
  neo4j_available :: bool
  llm_classify :: "pystr \<Rightarrow> error + pystr"
  llm_extract :: "pystr \<Rightarrow> pystr \<Rightarrow> error + pystr"
  llm_answer :: "pystr \<Rightarrow> pystr \<Rightarrow> pystr \<Rightarrow> error + pystr"
  dense_backend :: "pystr \<Rightarrow> int \<Rightarrow> error + retrieval_result list"
  sparse_backend :: "pystr \<Rightarrow> int \<Rightarrow> error + retrieval_result list"
  graph_person :: "pystr list \<Rightarrow> int \<Rightarrow> error + graph_row list"
  graph_topic :: "pystr list \<Rightarrow> int \<Rightarrow> error + graph_row list"
  graph_event :: "pystr list \<Rightarrow> int \<Rightarrow> error + graph_row list"
  elapsed_ms :: nat
  unicode_upper :: "nat \<Rightarrow> pystr"
  set_iteration :: "pystr list \<Rightarrow> pystr list"

text \<open>The calls a request makes, in order. Every function below returns the calls it made
  next to its value.\<close>

datatype event =
    ClassifyCall pystr
  | DenseCall pystr int
  | SparseCall pystr int
  | GraphRetrieveCall pystr pystr int
  | ExtractCall pystr pystr
  | PersonStrategy "pystr list" int
  | TopicStrategy "pystr list" int
  | EventStrategy "pystr list" int
  | FuseCall "pystr list"
  | GenerateCall pystr pystr pystr

section \<open>Graph retriever (services/retrievers/graph\_retriever.py)\<close>

text \<open>\<open>Neo4jClient.execute_read\<close>: empty when the client is not available, and empty when
  the query raises.\<close>

definition execute_read :: "env \<Rightarrow> (error + graph_row list) \<Rightarrow> graph_row list" where
  "execute_read env outcome =
     (if \<not> neo4j_available env then []
      else (case outcome of Inl e \<Rightarrow> [] | Inr rows \<Rightarrow> rows))"

text \<open>\<open>_calculate_score\<close> and the construction of a \<open>GraphRetrievalResult\<close> from a row;
  \<open>kind\<close> is the \<open>type\<close> entry of its \<open>graph_context\<close>. The rows are typed, so the
  construction raises nothing.\<close>

definition calculate_score :: "rat \<Rightarrow> rat" where
  "calculate_score weight = min 1 (weight / 10)"

definition row_result :: "pystr \<Rightarrow> graph_row \<Rightarrow> retrieval_result" where
  "row_result kind r =
     \<lparr>id_p = row_id r, book_id = row_book_id r, book_name = row_book_name r,
      chapter_start = row_chapter_start r, verse_start = row_verse_start r,
      chapter_end = row_chapter_end r, verse_end = row_verse_end r,
      title = row_title r, text_p = py_join [10] (take 5 (row_verse_texts r)),
      score = calculate_score (row_weight r),
      graph_context = Some \<lparr>gc_type = kind, gc_entities = row_names r, gc_weight = row_weight r\<rparr>\<rparr>"

text \<open>The three scoped strategies. Each records its call; a failing query gives no rows
  (\<open>execute_read\<close> and the strategy's own \<open>except\<close> both end in the empty list).\<close>

definition retrieve_by_person :: "env \<Rightarrow> pystr list \<Rightarrow> int \<Rightarrow> event list \<times> retrieval_result list" where
  "retrieve_by_person env names top_k =
     ([PersonStrategy names top_k],
      map (row_result (lit ''person'')) (execute_read env (graph_person env names top_k)))"

definition retrieve_by_topic :: "env \<Rightarrow> pystr list \<Rightarrow> int \<Rightarrow> event list \<times> retrieval_result list" where
  "retrieve_by_topic env topics top_k =
     ([TopicStrategy topics top_k],
      map (row_result (lit ''topic'')) (execute_read env (graph_topic env topics top_k)))"

definition retrieve_by_event :: "env \<Rightarrow> pystr list \<Rightarrow> int \<Rightarrow> event list \<times> retrieval_result list" where
  "retrieve_by_event env events top_k =
     ([EventStrategy events top_k],
      map (row_result (lit ''event'')) (execute_read env (graph_event env events top_k)))"

text \<open>\<open>k_per_type = max(top_k // 3, 5)\<close>; \<open>//\<close> is floor division, as \<open>div\<close> on \<open>int\<close>.\<close>

definition k_per_type :: "int \<Rightarrow> int" where
  "k_per_type top_k = max (top_k div 3) 5"

text \<open>\<open>sorted(all_results, key=lambda x: x.score, reverse=True)\<close>, a stable sort.\<close>

definition sort_by_score :: "retrieval_result list \<Rightarrow> retrieval_result list" where
  "sort_by_score rs = sort_key (\<lambda>x. - score x) rs"

text \<open>The deduplication loop with its \<open>seen_ids\<close> set and \<open>unique_results\<close> list.\<close>

fun dedup_loop :: "retrieval_result list \<Rightarrow> int set \<Rightarrow> retrieval_result list \<Rightarrow> retrieval_result list" where
  "dedup_loop [] seen_ids unique_results = unique_results"
| "dedup_loop (r # rs) seen_ids unique_results =
     (if id_p r \<notin> seen_ids
      then dedup_loop rs (insert (id_p r) seen_ids) (unique_results @ [r])
      else dedup_loop rs seen_ids unique_results)"

definition retrieve_general :: "env \<Rightarrow> pystr list \<Rightarrow> int \<Rightarrow> event list \<times> retrieval_result list" where
  "retrieve_general env keywords top_k =
     (case retrieve_by_person env keywords (k_per_type top_k) of (l1, person_results) \<Rightarrow>
      case retrieve_by_topic env keywords (k_per_type top_k) of (l2, topic_results) \<Rightarrow>
      case retrieve_by_event env keywords (k_per_type top_k) of (l3, event_results) \<Rightarrow>
        (l1 @ l2 @ l3,
         py_take top_k
           (dedup_loop (sort_by_score (person_results @ topic_results @ event_results)) {} [])))"

text \<open>A \<open>GraphRetriever\<close> holds only its optional LLM client; \<open>has_llm\<close> says whether
  \<open>self.llm_client\<close> is set.\<close>

record GraphRetriever =
  has_llm :: bool

text \<open>\<open>_extract_entities_from_query\<close>: the query itself without an LLM client or when the
  call raises; otherwise the non-empty stripped pieces of the reply split at commas
  (code point 44).\<close>

definition extract_entities_from_query ::
    "env \<Rightarrow> GraphRetriever \<Rightarrow> pystr \<Rightarrow> pystr \<Rightarrow> event list \<times> pystr list" where
  "extract_entities_from_query env self query query_type =
     (if \<not> has_llm self then ([], [query])
      else (case llm_extract env query_type query of
              Inl e \<Rightarrow> ([ExtractCall query_type query], [query])
            | Inr response \<Rightarrow>
                ([ExtractCall query_type query],
                 filter (\<lambda>e. e \<noteq> []) (map py_strip (py_split 44 (py_strip response))))))"

text \<open>\<open>retrieve\<close>: nothing at all when the graph store is not available, nothing when no
  entity was extracted, else the strategy the classification tag selects.\<close>

definition retrieve ::
    "env \<Rightarrow> GraphRetriever \<Rightarrow> pystr \<Rightarrow> pystr \<Rightarrow> int \<Rightarrow> event list \<times> retrieval_result list" where
  "retrieve env self query query_type top_k =
     (if \<not> neo4j_available env then ([], [])
      else (case extract_entities_from_query env self query query_type of (l, entities) \<Rightarrow>
        if entities = [] then (l, [])
        else (case (if query_type = lit ''PERSON_QUESTION'' then retrieve_by_person env entities top_k
                    else if query_type = lit ''TOPIC_QUESTION'' then retrieve_by_topic env entities top_k
                    else if query_type = lit ''EVENT_QUESTION'' then retrieve_by_event env entities top_k
                    else retrieve_general env entities top_k) of
                (l', results) \<Rightarrow> (l @ l', results))))"

text \<open>The merged list the general strategy works on: the results of the three scoped
  strategies, each run with the limit \<open>k_per_type top_k\<close>, in this order.\<close>

definition merged_results :: "env \<Rightarrow> pystr list \<Rightarrow> int \<Rightarrow> retrieval_result list" where
  "merged_results env keywords top_k =
     snd (retrieve_by_person env keywords (k_per_type top_k))
     @ snd (retrieve_by_topic env keywords (k_per_type top_k))
     @ snd (retrieve_by_event env keywords (k_per_type top_k))"

text \<open>An example environment: the person query finds passages 7 and 3, the topic query
  finds passage 3 with a higher weight, the event query fails.\<close>

definition example_row :: "int \<Rightarrow> rat \<Rightarrow> graph_row" where
  "example_row i w =
     \<lparr>row_id = i, row_book_id = 2, row_book_name = lit ''Exo'', row_chapter_start = 3,
      row_verse_start = 1, row_chapter_end = 3, row_verse_end = 10, row_title = lit ''Bush'',
      row_verse_texts = [lit ''v1'', lit ''v2''], row_weight = w, row_names = [lit ''Moses'']\<rparr>"

definition example_env :: env where
  "example_env =
     \<lparr>settings = default_settings,
      neo4j_available = True,
      llm_classify = (\<lambda>q. Inr (lit ''PERSON_QUESTION'')),
      llm_extract = (\<lambda>t q. Inr (lit ''Moses, Aaron'')),
      llm_answer = (\<lambda>q c t. Inr (lit ''answer'')),
      dense_backend = (\<lambda>q k. Inr [example_result 1, example_result 2, example_result 3]),
      sparse_backend = (\<lambda>q k. Inr [example_result 2, example_result 1]),
      graph_person = (\<lambda>n k. Inr [example_row 7 12, example_row 3 4]),
      graph_topic = (\<lambda>n k. Inr [example_row 3 20]),
      graph_event = (\<lambda>n k. Inl BackendError),
      elapsed_ms = 120,
      unicode_upper = (\<lambda>c. [c]),
      set_iteration = (\<lambda>xs. xs)\<rparr>"

section \<open>Query classification (services/llm\_client.py)\<close>

definition valid_types :: "pystr list" where
  "valid_types =
     [lit ''VERSE_LOOKUP'', lit ''TOPIC_QUESTION'', lit ''PERSON_QUESTION'',
      lit ''EVENT_QUESTION'', lit ''GENERAL_BIBLE_QUESTION'']"

text \<open>\<open>for query_type in valid_types: if query_type in response: return query_type\<close>, with
  the fallback after the loop.\<close>

fun first_valid_type :: "pystr list \<Rightarrow> pystr \<Rightarrow> pystr" where
  "first_valid_type [] response = lit ''GENERAL_BIBLE_QUESTION''"
| "first_valid_type (query_type # rest) response =
     (if is_substring query_type response then query_type
      else first_valid_type rest response)"

text \<open>\<open>classify_query\<close>: one LLM call; an exception of the call propagates.\<close>

definition classify_query :: "env \<Rightarrow> pystr \<Rightarrow> event list \<times> (error + pystr)" where
  "classify_query env query =
     ([ClassifyCall query],
      (case llm_classify env query of
         Inl e \<Rightarrow> Inl e
       | Inr response \<Rightarrow>
           Inr (first_valid_type valid_types (py_upper (unicode_upper env) (py_strip response)))))"

section \<open>Pipeline orchestrator (services/rag\_pipeline.py)\<close>

record RAGPipeline =
  use_graph :: bool
  graph_retriever :: "GraphRetriever option"
  fusion :: int
  context_builder :: ContextBuilder

text \<open>\<open>RAGPipeline.__init__\<close>: the graph retriever exists only with \<open>use_graph\<close>;
  \<open>RRFFusion()\<close> and \<open>ContextBuilder()\<close> take their parameters from the settings.\<close>

definition RAGPipeline_init :: "env \<Rightarrow> bool \<Rightarrow> RAGPipeline" where
  "RAGPipeline_init env ug =
     \<lparr>use_graph = ug,
      graph_retriever = (if ug then Some \<lparr>has_llm = True\<rparr> else None),
      fusion = RRFFusion_init (settings env) None,
      context_builder = ContextBuilder_init (settings env) None\<rparr>"

text \<open>The \<open>options\<close> dictionary of \<open>execute\<close>: each of its two keys may be missing.\<close>

record options_dict =
  opt_max_results :: "int option"
  opt_include_graph :: "bool option"

text \<open>\<open>options.get("max_results", settings.TOP_K_PERICOPES)\<close> and
  \<open>options.get("include_graph", True)\<close>, after \<open>options = options or {}\<close>.\<close>

definition get_max_results :: "env \<Rightarrow> options_dict option \<Rightarrow> int" where
  "get_max_results env options =
     (case options of
        None \<Rightarrow> TOP_K_PERICOPES (settings env)
      | Some d \<Rightarrow> (case opt_max_results d of
                     None \<Rightarrow> TOP_K_PERICOPES (settings env)
                   | Some m \<Rightarrow> m))"

definition get_include_graph :: "options_dict option \<Rightarrow> bool" where
  "get_include_graph options =
     (case options of
        None \<Rightarrow> True
      | Some d \<Rightarrow> (case opt_include_graph d of None \<Rightarrow> True | Some b \<Rightarrow> b))"

text \<open>Step 1: the LLM classifies only in mode \<open>auto\<close>.\<close>

definition classify_stage :: "env \<Rightarrow> pystr \<Rightarrow> pystr \<Rightarrow> event list \<times> (error + pystr)" where
  "classify_stage env query mode =
     (if mode = lit ''auto'' then classify_query env query
      else ([], Inr (py_upper (unicode_upper env) mode)))"

text \<open>Step 2: each retriever inside its \<open>try\<close>; an exception leaves the empty list.\<close>

definition dense_stage :: "env \<Rightarrow> pystr \<Rightarrow> event list \<times> retrieval_result list" where
  "dense_stage env query =
     ([DenseCall query (MAX_RETRIEVE_RESULTS (settings env))],
      (case dense_backend env query (MAX_RETRIEVE_RESULTS (settings env)) of
         Inl e \<Rightarrow> []
       | Inr results \<Rightarrow> results))"

definition sparse_stage :: "env \<Rightarrow> pystr \<Rightarrow> event list \<times> retrieval_result list" where
  "sparse_stage env query =
     ([SparseCall query (MAX_RETRIEVE_RESULTS (settings env))],
      (case sparse_backend env query (MAX_RETRIEVE_RESULTS (settings env)) of
         Inl e \<Rightarrow> []
       | Inr results \<Rightarrow> results))"

text \<open>\<open>if self.graph_retriever and include_graph and Neo4jClient.is_available()\<close>.\<close>

definition graph_stage ::
    "env \<Rightarrow> RAGPipeline \<Rightarrow> pystr \<Rightarrow> pystr \<Rightarrow> bool \<Rightarrow> event list \<times> retrieval_result list" where
  "graph_stage env self query query_type include_graph =
     (case graph_retriever self of
        None \<Rightarrow> ([], [])
      | Some g \<Rightarrow>
          if include_graph \<and> neo4j_available env then
            (case retrieve env g query query_type (MAX_RETRIEVE_RESULTS (settings env)) of
               (l, graph_results) \<Rightarrow>
                 (GraphRetrieveCall query query_type (MAX_RETRIEVE_RESULTS (settings env)) # l,
                  graph_results))
          else ([], []))"

text \<open>\<open>set.update(entities)\<close> on a set kept as a duplicate-free list, and
  \<open>_build_graph_context\<close>; \<open>list(topics)\<close> lists the set in the order the environment
  gives.\<close>

definition set_update :: "pystr list \<Rightarrow> pystr list \<Rightarrow> pystr list" where
  "set_update acc entities = fold (\<lambda>e a. if e \<in> set a then a else a @ [e]) entities acc"

definition collect_entities :: "pystr \<Rightarrow> retrieval_result list \<Rightarrow> pystr list" where
  "collect_entities kind results =
     fold (\<lambda>r acc. case graph_context r of
                      None \<Rightarrow> acc
                    | Some ctx \<Rightarrow> if gc_type ctx = kind then set_update acc (gc_entities ctx) else acc)
       results []"

definition build_graph_context :: "env \<Rightarrow> retrieval_result list \<Rightarrow> pystr list \<times> pystr list" where
  "build_graph_context env results =
     (take 10 (set_iteration env (collect_entities (lit ''topic'') results)),
      take 10 (set_iteration env (collect_entities (lit ''person'') results)))"

text \<open>\<open>used_retrievers\<close> and \<open>result_lists\<close> both list the sources whose result is
  non-empty, in the order dense, sparse, graph.\<close>

definition used_names ::
    "retrieval_result list \<Rightarrow> retrieval_result list \<Rightarrow> retrieval_result list \<Rightarrow> pystr list" where
  "used_names dense_results sparse_results graph_results =
     (if dense_results \<noteq> [] then [lit ''dense''] else [])
     @ (if sparse_results \<noteq> [] then [lit ''sparse''] else [])
     @ (if graph_results \<noteq> [] then [lit ''graph''] else [])"

definition make_result_lists ::
    "retrieval_result list \<Rightarrow> retrieval_result list \<Rightarrow> retrieval_result list
     \<Rightarrow> (pystr \<times> retrieval_result list) list" where
  "make_result_lists dense_results sparse_results graph_results =
     (if dense_results \<noteq> [] then [(lit ''dense'', dense_results)] else [])
     @ (if sparse_results \<noteq> [] then [(lit ''sparse'', sparse_results)] else [])
     @ (if graph_results \<noteq> [] then [(lit ''graph'', graph_results)] else [])"

text \<open>Step 3: \<open>fuse\<close> is called only on a non-empty \<open>result_lists\<close>.\<close>

definition fuse_stage ::
    "int \<Rightarrow> (pystr \<times> retrieval_result list) list \<Rightarrow> event list \<times> (error + fused_result list)" where
  "fuse_stage k result_lists =
     (if result_lists \<noteq> [] then ([FuseCall (map fst result_lists)], fuse k result_lists)
      else ([], Inr []))"

text \<open>The local variables of \<open>execute\<close> after \<open>fused_results = fused_results[:max_results]\<close>.\<close>

record front_state =
  fs_query_type :: pystr
  fs_used_retrievers :: "pystr list"
  fs_graph_context_data :: "pystr list \<times> pystr list"
  fs_fused_results :: "fused_result list"

definition pipeline_front ::
    "env \<Rightarrow> RAGPipeline \<Rightarrow> pystr \<Rightarrow> pystr \<Rightarrow> options_dict option
     \<Rightarrow> event list \<times> (error + front_state)" where
  "pipeline_front env self query mode options =
     (case classify_stage env query mode of
        (l1, Inl e) \<Rightarrow> (l1, Inl e)
      | (l1, Inr query_type) \<Rightarrow>
         (case dense_stage env query of (l2, dense_results) \<Rightarrow>
          case sparse_stage env query of (l3, sparse_results) \<Rightarrow>
          case graph_stage env self query query_type (get_include_graph options) of
            (l4, graph_results) \<Rightarrow>
          case fuse_stage (fusion self)
                 (make_result_lists dense_results sparse_results graph_results) of
            (l5, Inl e) \<Rightarrow> (l1 @ l2 @ l3 @ l4 @ l5, Inl e)
          | (l5, Inr fused_results) \<Rightarrow>
              (l1 @ l2 @ l3 @ l4 @ l5,
               Inr \<lparr>fs_query_type = query_type,
                    fs_used_retrievers = used_names dense_results sparse_results graph_results,
                    fs_graph_context_data =
                      (if graph_results \<noteq> [] then build_graph_context env graph_results
                       else ([], [])),
                    fs_fused_results = py_take (get_max_results env options) fused_results\<rparr>)))"

text \<open>The response schemas (models/schemas/query.py).\<close>

record PericopeSegment =
  seg_id :: int
  seg_type :: pystr
  seg_book :: pystr
  seg_chapter_start :: int
  seg_verse_start :: int
  seg_chapter_end :: int
  seg_verse_end :: int
  seg_title :: pystr
  seg_text_excerpt :: pystr
  seg_relevance_score :: rat

record QueryMeta =
  qm_query_type :: pystr
  qm_used_retrievers :: "pystr list"
  qm_total_processing_time_ms :: int
  qm_llm_model :: pystr

record GraphContext =
  related_topics :: "pystr list"
  related_persons :: "pystr list"

record QueryResponse =
  resp_answer :: pystr
  resp_segments :: "PericopeSegment list"
  resp_meta :: QueryMeta
  resp_graph_context :: "GraphContext option"

text \<open>The answer used when nothing was retrieved (35 code points of Chinese text).\<close>

definition apology_text :: pystr where
  "apology_text =
     [25265, 27465, 65292, 25105, 25214, 19981, 21040, 33287, 24744, 21839, 38988, 30456,
      38364, 30340, 32854, 32147, 32147, 25991, 12290, 35531, 22039, 35430, 29992, 19981,
      21516, 30340, 26041, 24335, 25551, 36848, 24744, 30340, 21839, 38988, 12290]"

text \<open>One \<open>PericopeSegment\<close>; the schema requires \<open>0 \<le> relevance_score \<le> 1\<close> and rejects the
  segment otherwise (the upper bound always holds after \<open>min(1.0, ...)\<close>).\<close>

definition make_segment :: "fused_result \<Rightarrow> error + PericopeSegment" where
  "make_segment result =
     (let relevance = min 1 (score result * 10) in
      if relevance < 0 then Inl ValidationError
      else Inr \<lparr>seg_id = id_p result, seg_type = lit ''pericope'', seg_book = book_name result,
                seg_chapter_start = chapter_start result, seg_verse_start = verse_start result,
                seg_chapter_end = chapter_end result, seg_verse_end = verse_end result,
                seg_title = title result,
                seg_text_excerpt =
                  (if length (text_p result) > 200 then take 200 (text_p result) @ lit ''...''
                   else text_p result),
                seg_relevance_score = relevance\<rparr>)"

fun make_segments :: "fused_result list \<Rightarrow> error + PericopeSegment list" where
  "make_segments [] = Inr []"
| "make_segments (result # results) =
     (case make_segment result of
        Inl e \<Rightarrow> Inl e
      | Inr seg \<Rightarrow> (case make_segments results of
                      Inl e \<Rightarrow> Inl e
                    | Inr segs \<Rightarrow> Inr (seg # segs)))"

text \<open>Steps 4 to 6: context, answer generation (only for a non-empty list; an exception
  propagates) and the response.\<close>

definition pipeline_back ::
    "env \<Rightarrow> RAGPipeline \<Rightarrow> pystr \<Rightarrow> front_state \<Rightarrow> event list \<times> (error + QueryResponse)" where
  "pipeline_back env self query fs =
     (case build_with_metadata (context_builder self) (fs_fused_results fs) of
        (context, metadata) \<Rightarrow>
      case (if fs_fused_results fs \<noteq> []
            then ([GenerateCall query context (fs_query_type fs)],
                  llm_answer env query context (fs_query_type fs))
            else ([], Inr apology_text)) of
        (l, Inl e) \<Rightarrow> (l, Inl e)
      | (l, Inr answer) \<Rightarrow>
          (case make_segments (fs_fused_results fs) of
             Inl e \<Rightarrow> (l, Inl e)
           | Inr segments \<Rightarrow>
               (l, Inr \<lparr>resp_answer = answer,
                        resp_segments = segments,
                        resp_meta =
                          \<lparr>qm_query_type = fs_query_type fs,
                           qm_used_retrievers = fs_used_retrievers fs,
                           qm_total_processing_time_ms = int (elapsed_ms env),
                           qm_llm_model = LLM_MODEL_NAME (settings env)\<rparr>,
                        resp_graph_context =
                          (case fs_graph_context_data fs of
                             (topics, persons) \<Rightarrow>
                               if topics \<noteq> [] \<or> persons \<noteq> []
                               then Some \<lparr>related_topics = topics, related_persons = persons\<rparr>
                               else None)\<rparr>)))"

definition execute ::
    "env \<Rightarrow> RAGPipeline \<Rightarrow> pystr \<Rightarrow> pystr \<Rightarrow> options_dict option
     \<Rightarrow> event list \<times> (error + QueryResponse)" where
  "execute env self query mode options =
     (case pipeline_front env self query mode options of
        (l, Inl e) \<Rightarrow> (l, Inl e)
      | (l, Inr fs) \<Rightarrow>
          (case pipeline_back env self query fs of (l', r) \<Rightarrow> (l @ l', r)))"

section \<open>The request schema and the endpoint (models/schemas/query.py, endpoints/query.py)\<close>

datatype QueryMode = AUTO | VERSE | TOPIC | PERSON | EVENT

fun mode_value :: "QueryMode \<Rightarrow> pystr" where
  "mode_value AUTO = lit ''auto''"
| "mode_value VERSE = lit ''verse''"
| "mode_value TOPIC = lit ''topic''"
| "mode_value PERSON = lit ''person''"
| "mode_value EVENT = lit ''event''"

definition parse_mode :: "pystr \<Rightarrow> QueryMode option" where
  "parse_mode s =
     (if s = lit ''auto'' then Some AUTO
      else if s = lit ''verse'' then Some VERSE
      else if s = lit ''topic'' then Some TOPIC
      else if s = lit ''person'' then Some PERSON
      else if s = lit ''event'' then Some EVENT
      else None)"

text \<open>The request body as it arrives: every field but \<open>query\<close> may be left out.\<close>

record raw_options =
  raw_max_results :: "int option"
  raw_include_graph :: "bool option"

record raw_request =
  raw_query :: pystr
  raw_mode :: "pystr option"
  raw_options :: "raw_options option"

record QueryOptions =
  max_results :: int
  include_graph :: bool

record QueryRequest =
  req_query :: pystr
  req_mode :: QueryMode
  req_options :: QueryOptions

text \<open>Validation against the schema: \<open>max_results\<close> defaults to 5 and must lie in 1..20,
  \<open>include_graph\<close> defaults to \<open>False\<close>, \<open>mode\<close> defaults to \<open>auto\<close>, \<open>query\<close> has 1 to 500
  characters.\<close>

definition parse_options :: "raw_options option \<Rightarrow> error + QueryOptions" where
  "parse_options ro =
     (case ro of
        None \<Rightarrow> Inr \<lparr>max_results = 5, include_graph = False\<rparr>
      | Some d \<Rightarrow>
          (let ig = (case raw_include_graph d of None \<Rightarrow> False | Some b \<Rightarrow> b) in
           case raw_max_results d of
             None \<Rightarrow> Inr \<lparr>max_results = 5, include_graph = ig\<rparr>
           | Some m \<Rightarrow> if 1 \<le> m \<and> m \<le> 20 then Inr \<lparr>max_results = m, include_graph = ig\<rparr>
                       else Inl ValidationError))"

definition parse_request :: "raw_request \<Rightarrow> error + QueryRequest" where
  "parse_request raw =
     (if length (raw_query raw) < 1 \<or> 500 < length (raw_query raw) then Inl ValidationError
      else (case (case raw_mode raw of None \<Rightarrow> Some AUTO | Some s \<Rightarrow> parse_mode s) of
              None \<Rightarrow> Inl ValidationError
            | Some m \<Rightarrow>
                (case parse_options (raw_options raw) of
                   Inl e \<Rightarrow> Inl e
                 | Inr opts \<Rightarrow> Inr \<lparr>req_query = raw_query raw, req_mode = m, req_options = opts\<rparr>)))"

text \<open>The options dictionary the endpoint passes on: both keys always present.\<close>

definition request_options :: "QueryRequest \<Rightarrow> options_dict" where
  "request_options request =
     \<lparr>opt_max_results = Some (max_results (req_options request)),
      opt_include_graph = Some (include_graph (req_options request))\<rparr>"

text \<open>\<open>execute_query\<close>: a pipeline with the default \<open>use_graph=True\<close>; any exception of
  \<open>execute\<close> becomes \<open>HTTPException(500)\<close>.\<close>

definition execute_query :: "env \<Rightarrow> raw_request \<Rightarrow> event list \<times> (error + QueryResponse)" where
  "execute_query env raw =
     (case parse_request raw of
        Inl e \<Rightarrow> ([], Inl e)
      | Inr request \<Rightarrow>
          (case execute env (RAGPipeline_init env True) (req_query request)
                  (mode_value (req_mode request)) (Some (request_options request)) of
             (l, Inl e) \<Rightarrow> (l, Inl (HTTPException 500))
           | (l, Inr result) \<Rightarrow> (l, Inr result)))"

text \<open>Reading the trace: which calls go to the classification prompt, to the graph
  retriever and to answer generation, and the classification tag a call carries.\<close>

fun is_classify :: "event \<Rightarrow> bool" where
  "is_classify (ClassifyCall q) = True"
| "is_classify e = False"

fun is_generate :: "event \<Rightarrow> bool" where
  "is_generate (GenerateCall q c t) = True"
| "is_generate e = False"

fun is_graph :: "event \<Rightarrow> bool" where
  "is_graph (GraphRetrieveCall q t k) = True"
| "is_graph (ExtractCall t q) = True"
| "is_graph (PersonStrategy n k) = True"
| "is_graph (TopicStrategy n k) = True"
| "is_graph (EventStrategy n k) = True"
| "is_graph e = False"

fun event_tag :: "event \<Rightarrow> pystr option" where
  "event_tag (GraphRetrieveCall q t k) = Some t"
| "event_tag (ExtractCall t q) = Some t"
| "event_tag (GenerateCall q c t) = Some t"
| "event_tag e = None"

fun fused_sources :: "event \<Rightarrow> pystr list" where
  "fused_sources (FuseCall names) = names"
| "fused_sources e = []"

text \<open>What a request says about \<open>include_graph\<close>, if anything, and the same request with
  the option spelled out.\<close>

definition requested_include_graph :: "raw_request \<Rightarrow> bool option" where
  "requested_include_graph raw =
     (case raw_options raw of None \<Rightarrow> None | Some d \<Rightarrow> raw_include_graph d)"

definition with_include_graph :: "bool \<Rightarrow> raw_request \<Rightarrow> raw_request" where
  "with_include_graph b raw =
     raw\<lparr>raw_options :=
           Some \<lparr>raw_max_results = (case raw_options raw of None \<Rightarrow> None
                                      | Some d \<Rightarrow> raw_max_results d),
                 raw_include_graph = Some b\<rparr>\<rparr>"

text \<open>The options of a call of \<open>execute\<close> with \<open>include_graph\<close> set to \<open>False\<close>.\<close>

definition without_graph :: "options_dict option \<Rightarrow> options_dict option" where
  "without_graph options =
     (case options of
        None \<Rightarrow> Some \<lparr>opt_max_results = None, opt_include_graph = Some False\<rparr>
      | Some d \<Rightarrow> Some (d\<lparr>opt_include_graph := Some False\<rparr>))"

definition person_request :: raw_request where
  "person_request =
     \<lparr>raw_query = lit ''who is Moses'', raw_mode = Some (lit ''person''), raw_options = None\<rparr>"

definition plain_request :: raw_request where
  "plain_request = \<lparr>raw_query = lit ''love'', raw_mode = None, raw_options = None\<rparr>"

text \<open>An environment in which the dense retriever fails and the sparse one finds nothing,
  and one in which the graph store is not available.\<close>

definition empty_env :: env where
  "empty_env =
     example_env\<lparr>dense_backend := (\<lambda>q k. Inl BackendError), sparse_backend := (\<lambda>q k. Inr [])\<rparr>"

definition no_graph_env :: env where
  "no_graph_env = example_env\<lparr>neo4j_available := False\<rparr>"

section \<open>Rank fusion: loop invariants\<close>

lemma add_keys_Nil [simp]: "add_keys ks [] = ks"
  by (simp add: add_keys_def)

lemma add_keys_Cons [simp]:
  "add_keys ks (d # ds) = add_keys (if d \<in> set ks then ks else ks @ [d]) ds"
  by (simp add: add_keys_def)

lemma add_keys_append: "add_keys ks (xs @ ys) = add_keys (add_keys ks xs) ys"
  by (simp add: add_keys_def)

lemma set_add_keys: "set (add_keys ks ds) = set ks \<union> set ds"
  by (induction ds arbitrary: ks) auto

lemma distinct_add_keys: "distinct ks \<Longrightarrow> distinct (add_keys ks ds)"
  by (induction ds arbitrary: ks) auto

lemma score_of_body:
  "score_of (fuse_body s x r st) d = score_of st d + (if id_p r = d then x else 0)"
  by (simp add: score_of_def fuse_body_def get_default_def Let_def update_conv')

lemma keys_of_body:
  "keys_of (fuse_body s x r st) = add_keys (keys_of st) [id_p r]"
  by (simp add: keys_of_def fuse_body_def Let_def update_keys)

lemma fuse_inv_body: "fuse_inv st \<Longrightarrow> fuse_inv (fuse_body s x r st)"
  by (auto simp: fuse_inv_def fuse_body_def Let_def distinct_update update_keys update_conv'
      split: if_splits)

lemma fuse_ranks_ok:
  assumes "\<forall>i<length rs. k + int (rank + i) \<noteq> 0" "fuse_inv st"
  shows "\<exists>st'. fuse_ranks k s rank rs st = Inr st' \<and> fuse_inv st' \<and>
           keys_of st' = add_keys (keys_of st) (map id_p rs) \<and>
           (\<forall>d. score_of st' d = score_of st d +
              sum_list (map (rrf_term k)
                (map fst (filter (\<lambda>(r, x). id_p x = d) (enumerate rank rs)))))"
  using assms
proof (induction rs arbitrary: rank st)
  case Nil
  then show ?case by simp
next
  case (Cons r rs)
  have nz: "k + int rank \<noteq> 0" using Cons.prems(1) by force
  have nz': "\<forall>i<length rs. k + int (Suc rank + i) \<noteq> 0"
    using Cons.prems(1) by force
  let ?st1 = "fuse_body s (1 / of_int (k + int rank)) r st"
  have inv1: "fuse_inv ?st1" using Cons.prems(2) by (rule fuse_inv_body)
  from Cons.IH[OF nz' inv1] obtain st' where
    st': "fuse_ranks k s (Suc rank) rs ?st1 = Inr st'" "fuse_inv st'"
      "keys_of st' = add_keys (keys_of ?st1) (map id_p rs)"
      "\<forall>d. score_of st' d = score_of ?st1 d +
              sum_list (map (rrf_term k)
                (map fst (filter (\<lambda>(r, x). id_p x = d) (enumerate (Suc rank) rs))))"
    by blast
  have "fuse_ranks k s rank (r # rs) st = Inr st'" using nz st'(1) by simp
  moreover have "keys_of st' = add_keys (keys_of st) (map id_p (r # rs))"
    using st'(3) by (simp add: keys_of_body)
  moreover have "\<forall>d. score_of st' d = score_of st d +
              sum_list (map (rrf_term k)
                (map fst (filter (\<lambda>(r, x). id_p x = d) (enumerate rank (r # rs)))))"
    using st'(4) by (simp add: score_of_body rrf_term_def)
  ultimately show ?case using st'(2) by blast
qed

lemma fuse_lists_ok:
  assumes "\<forall>(s, rs)\<in>set rl. k \<notin> {- int (length rs) .. -1}" "fuse_inv st"
  shows "\<exists>st'. fuse_lists k rl st = Inr st' \<and> fuse_inv st' \<and>
           keys_of st' = add_keys (keys_of st) (all_ids rl) \<and>
           (\<forall>d. score_of st' d = score_of st d + sum_list (map (rrf_term k) (all_ranks d rl)))"
  using assms
proof (induction rl arbitrary: st)
  case Nil
  then show ?case by (simp add: all_ids_def all_ranks_def)
next
  case (Cons p rl)
  obtain s rs where p: "p = (s, rs)" by (cases p)
  have "k \<notin> {- int (length rs) .. -1}" using Cons.prems(1) p by auto
  then have nz: "\<forall>i<length rs. k + int (1 + i) \<noteq> 0" by auto
  from fuse_ranks_ok[OF nz Cons.prems(2), of s] obtain st1 where
    st1: "fuse_ranks k s 1 rs st = Inr st1" "fuse_inv st1"
      "keys_of st1 = add_keys (keys_of st) (map id_p rs)"
      "\<forall>d. score_of st1 d = score_of st d +
              sum_list (map (rrf_term k) (ranks_of d rs))"
    unfolding ranks_of_def by blast
  have rest: "\<forall>(s, rs)\<in>set rl. k \<notin> {- int (length rs) .. -1}"
    using Cons.prems(1) by simp
  from Cons.IH[OF rest st1(2)] obtain st' where
    st': "fuse_lists k rl st1 = Inr st'" "fuse_inv st'"
      "keys_of st' = add_keys (keys_of st1) (all_ids rl)"
      "\<forall>d. score_of st' d = score_of st1 d + sum_list (map (rrf_term k) (all_ranks d rl))"
    by blast
  have "fuse_lists k (p # rl) st = Inr st'" using p st1(1) st'(1) by simp
  moreover have "keys_of st' = add_keys (keys_of st) (all_ids (p # rl))"
    using st'(3) st1(3) p by (simp add: all_ids_def add_keys_append)
  moreover have "\<forall>d. score_of st' d = score_of st d +
      sum_list (map (rrf_term k) (all_ranks d (p # rl)))"
    using st'(4) st1(4) p by (simp add: all_ranks_def)
  ultimately show ?case using st'(2) by blast
qed

lemma build_fused_ok:
  assumes "\<forall>d \<in> set (map fst items). map_of (doc_data st) d \<noteq> None"
  shows "\<exists>out. build_fused st items = Inr out \<and> pairs_of out = items"
  using assms
proof (induction items)
  case Nil
  then show ?case by (simp add: pairs_of_def)
next
  case (Cons p items)
  obtain d sc where p: "p = (d, sc)" by (cases p)
  from Cons.prems p obtain data where data: "map_of (doc_data st) d = Some data" by auto
  from Cons obtain out where out: "build_fused st items = Inr out" "pairs_of out = items"
    by auto
  show ?case using p data out by (simp add: pairs_of_def)
qed

lemma alist_keys_values:
  "distinct (map fst al) \<Longrightarrow> map (\<lambda>d. (d, get_default z al d)) (map fst al) = al"
proof (induction al)
  case Nil
  then show ?case by simp
next
  case (Cons p al)
  obtain a b where p: "p = (a, b)" by (cases p)
  have notin: "a \<notin> fst ` set al" using Cons.prems p by simp
  have eq: "map (\<lambda>d. (d, get_default z (p # al) d)) (map fst al)
      = map (\<lambda>d. (d, get_default z al d)) (map fst al)"
  proof (rule map_cong[OF refl])
    fix d assume "d \<in> set (map fst al)"
    then have "d \<noteq> a" using notin by auto
    then show "(d, get_default z (p # al) d) = (d, get_default z al d)"
      using p by (simp add: get_default_def)
  qed
  have "map (\<lambda>d. (d, get_default z (p # al) d)) (map fst (p # al))
      = (a, b) # map (\<lambda>d. (d, get_default z (p # al) d)) (map fst al)"
    using p by (simp add: get_default_def)
  also have "\<dots> = (a, b) # al" using Cons by (simp only: eq distinct.simps list.map)
  finally show ?case using p by simp
qed

lemma fuse_char:
  assumes "\<forall>(s, rs)\<in>set rl. k \<notin> {- int (length rs) .. -1}"
  shows "\<exists>out. fuse k rl = Inr out \<and>
           pairs_of out = sorted_desc (map (\<lambda>d. (d, rrf_total k rl d)) (add_keys [] (all_ids rl)))"
proof -
  have inv0: "fuse_inv empty_fuse_state"
    by (simp add: fuse_inv_def empty_fuse_state_def)
  from fuse_lists_ok[OF assms inv0] obtain st where
    st: "fuse_lists k rl empty_fuse_state = Inr st" "fuse_inv st"
      "keys_of st = add_keys (keys_of empty_fuse_state) (all_ids rl)"
      "\<forall>d. score_of st d = score_of empty_fuse_state d + sum_list (map (rrf_term k) (all_ranks d rl))"
    by blast
  have keys: "map fst (doc_scores st) = add_keys [] (all_ids rl)"
    using st(3) by (simp add: keys_of_def empty_fuse_state_def)
  have sc: "\<And>d. get_default 0 (doc_scores st) d = rrf_total k rl d"
    using st(4) by (simp add: score_of_def empty_fuse_state_def get_default_def rrf_total_def)
  have "map (\<lambda>d. (d, get_default 0 (doc_scores st) d)) (map fst (doc_scores st)) = doc_scores st"
    using st(2) by (intro alist_keys_values) (simp add: fuse_inv_def)
  then have items: "doc_scores st = map (\<lambda>d. (d, rrf_total k rl d)) (add_keys [] (all_ids rl))"
    using keys sc by simp
  have "\<forall>d \<in> set (map fst (sorted_desc (doc_scores st))). map_of (doc_data st) d \<noteq> None"
    using st(2) by (simp add: fuse_inv_def sorted_desc_def)
  from build_fused_ok[OF this] obtain out where
    "build_fused st (sorted_desc (doc_scores st)) = Inr out"
    "pairs_of out = sorted_desc (doc_scores st)" by blast
  then show ?thesis using st(1) items by (simp add: fuse_def)
qed





lemma fuse_ranks_Inr_nz:
  "fuse_ranks k s rank rs st = Inr st' \<Longrightarrow> \<forall>i<length rs. k + int (rank + i) \<noteq> 0"
proof (induction rs arbitrary: rank st)
  case Nil
  then show ?case by simp
next
  case (Cons r rs)
  have nz: "k + int rank \<noteq> 0" using Cons.prems by (auto split: if_splits)
  then have "fuse_ranks k s (Suc rank) rs (fuse_body s (1 / of_int (k + int rank)) r st) = Inr st'"
    using Cons.prems by simp
  from Cons.IH[OF this] have IH: "\<forall>i<length rs. k + int (Suc rank + i) \<noteq> 0" .
  show ?case
  proof (intro allI impI)
    fix i assume "i < length (r # rs)"
    then show "k + int (rank + i) \<noteq> 0" using nz IH by (cases i) auto
  qed
qed

lemma fuse_lists_Inr_nz:
  "fuse_lists k rl st = Inr st' \<Longrightarrow> \<forall>(s, rs)\<in>set rl. k \<notin> {- int (length rs) .. -1}"
proof (induction rl arbitrary: st)
  case Nil
  then show ?case by simp
next
  case (Cons p rl)
  obtain s rs where p: "p = (s, rs)" by (cases p)
  from Cons.prems p obtain st1 where
    st1: "fuse_ranks k s 1 rs st = Inr st1" "fuse_lists k rl st1 = Inr st'"
    by (auto split: sum.splits)
  have "\<forall>i<length rs. k + int (1 + i) \<noteq> 0" using fuse_ranks_Inr_nz[OF st1(1)] .
  then have "k \<notin> {- int (length rs) .. -1}"
  proof -
    assume a: "\<forall>i<length rs. k + int (1 + i) \<noteq> 0"
    show ?thesis
    proof
      assume "k \<in> {- int (length rs) .. -1}"
      then have "nat (- k - 1) < length rs" "k + int (1 + nat (- k - 1)) = 0" by auto
      then show False using a by blast
    qed
  qed
  then show ?case using Cons.IH[OF st1(2)] p by simp
qed

lemma fuse_Inr_nz:
  "fuse k rl = Inr out \<Longrightarrow> \<forall>(s, rs)\<in>set rl. k \<notin> {- int (length rs) .. -1}"
  by (auto simp: fuse_def split: sum.splits dest!: fuse_lists_Inr_nz)

lemma fuse_Inr_pairs:
  assumes "fuse k rl = Inr out"
  shows "pairs_of out = sorted_desc (map (\<lambda>d. (d, rrf_total k rl d)) (add_keys [] (all_ids rl)))"
  using fuse_char[OF fuse_Inr_nz[OF assms]] assms by auto

lemma pairs_score:
  assumes "pairs_of out = sorted_desc (map (\<lambda>d. (d, g d)) ks)" "f \<in> set out"
  shows "score f = g (id_p f)" "id_p f \<in> set ks"
proof -
  have "(id_p f, score f) \<in> set (pairs_of out)" using assms(2) by (auto simp: pairs_of_def)
  then have "(id_p f, score f) \<in> set (map (\<lambda>d. (d, g d)) ks)"
    using assms(1) by (simp add: sorted_desc_def)
  then show "score f = g (id_p f)" "id_p f \<in> set ks" by auto
qed

lemma pairs_ids:
  assumes "pairs_of out = sorted_desc (map (\<lambda>d. (d, g d)) ks)"
  shows "mset (map id_p out) = mset ks"
proof -
  have "map id_p out = map fst (pairs_of out)" by (simp add: pairs_of_def comp_def)
  then have "mset (map id_p out) = image_mset fst (mset (sorted_desc (map (\<lambda>d. (d, g d)) ks)))"
    using assms by simp
  also have "\<dots> = image_mset fst (mset (map (\<lambda>d. (d, g d)) ks))"
    by (simp add: sorted_desc_def)
  also have "\<dots> = mset ks" by (simp add: image_mset.compositionality comp_def)
  finally show ?thesis .
qed

lemma pairs_sorted:
  assumes "pairs_of out = sorted_desc items"
  shows "sorted_wrt (\<lambda>a b. score b \<le> score a) out"
proof -
  have "sorted (map (\<lambda>x. - snd x) (sorted_desc items))"
    by (simp add: sorted_desc_def)
  then have "sorted (map (\<lambda>x. - snd x) (pairs_of out))" using assms by simp
  then have "sorted (map (\<lambda>f. - score f) out)" by (simp add: pairs_of_def comp_def)
  then show ?thesis by (simp add: sorted_map)
qed

lemma ranks_of_pos: "r \<in> set (ranks_of d rs) \<Longrightarrow> 1 \<le> r"
  by (auto simp: ranks_of_def in_set_enumerate_eq)

lemma all_ranks_pos: "r \<in> set (all_ranks d rl) \<Longrightarrow> 1 \<le> r"
  by (auto simp: all_ranks_def dest: ranks_of_pos)

lemma rrf_term_pos: "0 \<le> k \<Longrightarrow> 1 \<le> r \<Longrightarrow> 0 < rrf_term k r"
  by (simp add: rrf_term_def)

lemma sum_terms_pos:
  "D \<noteq> {#} \<Longrightarrow> \<forall>r\<in>#D. 0 < (g r :: rat) \<Longrightarrow> 0 < sum_mset (image_mset g D)"
proof (induction D)
  case empty
  then show ?case by simp
next
  case (add x D)
  show ?case
  proof (cases "D = {#}")
    case True
    then show ?thesis using add.prems by simp
  next
    case False
    then have "0 < sum_mset (image_mset g D)" using add by simp
    moreover have "0 < g x" using add.prems by simp
    ultimately show ?thesis by (simp add: add_pos_pos)
  qed
qed

lemma sum_terms_strict:
  assumes "M \<subset># N" "\<forall>r\<in>#N. 0 < (g r :: rat)"
  shows "sum_mset (image_mset g M) < sum_mset (image_mset g N)"
proof -
  from assms(1) obtain D where D: "N = M + D" "D \<noteq> {#}"
    by (metis subset_mset.lessE)
  have "\<forall>r\<in>#D. 0 < g r" using assms(2) D(1) by simp
  then have "0 < sum_mset (image_mset g D)" using D(2) by (intro sum_terms_pos)
  then show ?thesis using D(1) by simp
qed

lemma nz_of_nonneg: "0 \<le> k \<Longrightarrow> \<forall>(s, rs)\<in>set rl. k \<notin> {- int (length rs) .. -1}"
  by auto

lemma all_ranks_ids: "all_ranks d rl \<noteq> [] \<Longrightarrow> d \<in> set (all_ids rl)"
  by (fastforce simp: all_ranks_def all_ids_def ranks_of_def in_set_enumerate_eq
        filter_empty_conv)

section \<open>Rank fusion: the claims\<close>

text \<open>
  Claim C1. Whenever no rank meets \<open>k + rank = 0\<close> (in particular for every \<open>k \<ge> 0\<close>, such
  as the default 60), \<open>fuse\<close> returns a list that holds exactly the ids that occur in some
  input list, each once; the score of each is the sum, over every source and every 1-indexed
  rank \<open>r\<close> at which that source lists the id, of \<open>1 / (k + r)\<close>; and the list is in
  descending score order. Nothing is dropped for a low (or even negative) score.
\<close>

theorem fuse_rrf:
  assumes "\<forall>(source_name, results)\<in>set rl. k \<notin> {- int (length results) .. -1}"
  shows "\<exists>out. fuse k rl = Inr out \<and>
           set (map id_p out) = set (all_ids rl) \<and> distinct (map id_p out) \<and>
           (\<forall>f\<in>set out. score f = (\<Sum>r\<leftarrow>all_ranks (id_p f) rl. 1 / of_int (k + int r))) \<and>
           sorted_wrt (\<lambda>a b. score b \<le> score a) out"
proof -
  from fuse_char[OF assms] obtain out where out: "fuse k rl = Inr out"
    "pairs_of out = sorted_desc (map (\<lambda>d. (d, rrf_total k rl d)) (add_keys [] (all_ids rl)))"
    by blast
  have m: "mset (map id_p out) = mset (add_keys [] (all_ids rl))"
    using out(2) by (rule pairs_ids)
  have "set (map id_p out) = set (add_keys [] (all_ids rl))"
    using m by (rule mset_eq_setD)
  then have ids: "set (map id_p out) = set (all_ids rl)" by (simp add: set_add_keys)
  have "distinct (add_keys [] (all_ids rl))" by (simp add: distinct_add_keys)
  then have d: "distinct (map id_p out)" using m by (metis mset_eq_imp_distinct_iff)
  have sc: "\<forall>f\<in>set out. score f = (\<Sum>r\<leftarrow>all_ranks (id_p f) rl. 1 / of_int (k + int r))"
  proof
    fix f assume "f \<in> set out"
    then have "score f = rrf_total k rl (id_p f)" by (rule pairs_score(1)[OF out(2)])
    also have "\<dots> = (\<Sum>r\<leftarrow>all_ranks (id_p f) rl. 1 / of_int (k + int r))"
      unfolding rrf_total_def by (rule arg_cong[where f = sum_list], rule map_cong) (simp_all add: rrf_term_def)
    finally show "score f = (\<Sum>r\<leftarrow>all_ranks (id_p f) rl. 1 / of_int (k + int r))" .
  qed
  show ?thesis using out(1) ids d sc pairs_sorted[OF out(2)] by blast
qed

theorem fuse_rrf_witness:
  "\<exists>out. fuse 60 scenario_B = Inr out \<and>
     set (map id_p out) = set (all_ids scenario_B) \<and> distinct (map id_p out) \<and>
     (\<forall>f\<in>set out. score f = (\<Sum>r\<leftarrow>all_ranks (id_p f) scenario_B. 1 / of_int (60 + int r))) \<and>
     sorted_wrt (\<lambda>a b. score b \<le> score a) out"
proof -
  have h: "\<forall>(source_name, results)\<in>set scenario_B. (60::int) \<notin> {- int (length results) .. -1}"
    by (simp add: scenario_B_def)
  show ?thesis using fuse_rrf[OF h] .
qed

text \<open>
  Claim C5. Let document \<open>a\<close> of one fusion input hold every rank that document \<open>b\<close> of a
  (possibly different) input holds, appearance for appearance, plus at least one further
  appearance: the multiset of \<open>b\<close>'s ranks is strictly contained in that of \<open>a\<close>'s. Then for
  \<open>k \<ge> 0\<close> both fusions return, \<open>a\<close> is in its output, and \<open>a\<close>'s fused score is strictly
  higher than \<open>b\<close>'s. Scores are exact rationals here.
\<close>

theorem fuse_more_sources_higher:
  assumes "0 \<le> k" and "mset (all_ranks b rl') \<subset># mset (all_ranks a rl)"
  shows "\<exists>out out'. fuse k rl = Inr out \<and> fuse k rl' = Inr out' \<and>
           (\<exists>fa\<in>set out. id_p fa = a) \<and>
           (\<forall>fa\<in>set out. \<forall>fb\<in>set out'. id_p fa = a \<and> id_p fb = b \<longrightarrow> score fb < score fa)"
proof -
  from fuse_char[OF nz_of_nonneg[OF assms(1)], of rl] obtain out where out: "fuse k rl = Inr out"
    "pairs_of out = sorted_desc (map (\<lambda>d. (d, rrf_total k rl d)) (add_keys [] (all_ids rl)))"
    by blast
  from fuse_char[OF nz_of_nonneg[OF assms(1)], of rl'] obtain out' where out': "fuse k rl' = Inr out'"
    "pairs_of out' = sorted_desc (map (\<lambda>d. (d, rrf_total k rl' d)) (add_keys [] (all_ids rl')))"
    by blast
  have pos: "\<forall>r\<in>#mset (all_ranks a rl). 0 < rrf_term k r"
    using assms(1) by (auto intro!: rrf_term_pos dest: all_ranks_pos)
  have "sum_mset (image_mset (rrf_term k) (mset (all_ranks b rl')))
      < sum_mset (image_mset (rrf_term k) (mset (all_ranks a rl)))"
    using assms(2) pos by (rule sum_terms_strict)
  then have lt: "rrf_total k rl' b < rrf_total k rl a"
    by (simp add: rrf_total_def sum_mset_sum_list[symmetric])
  have "all_ranks a rl \<noteq> []" using assms(2) by auto
  then have "a \<in> set (all_ids rl)" by (rule all_ranks_ids)
  moreover have "set (map id_p out) = set (add_keys [] (all_ids rl))"
    using pairs_ids[OF out(2)] by (rule mset_eq_setD)
  ultimately have "a \<in> id_p ` set out" by (simp add: set_add_keys)
  then have ex: "\<exists>fa\<in>set out. id_p fa = a" by blast
  have "\<forall>fa\<in>set out. \<forall>fb\<in>set out'. id_p fa = a \<and> id_p fb = b \<longrightarrow> score fb < score fa"
    using pairs_score(1)[OF out(2)] pairs_score(1)[OF out'(2)] lt by auto
  then show ?thesis using out(1) out'(1) ex by blast
qed

theorem fuse_more_sources_higher_witness:
  "\<exists>out out'. fuse 60 scenario_B = Inr out \<and> fuse 60 dense_only = Inr out' \<and>
           (\<exists>fa\<in>set out. id_p fa = 1) \<and>
           (\<forall>fa\<in>set out. \<forall>fb\<in>set out'. id_p fa = 1 \<and> id_p fb = 1 \<longrightarrow> score fb < score fa)"
proof -
  have h1: "(0::int) \<le> 60" by simp
  have "all_ranks 1 dense_only = [1]" "all_ranks 1 scenario_B = [1, 2]"
    by (simp_all add: all_ranks_def ranks_of_def dense_only_def scenario_B_def example_result_def)
  then have h2: "mset (all_ranks 1 dense_only) \<subset># mset (all_ranks 1 scenario_B)"
    by simp
  show ?thesis using fuse_more_sources_higher[OF h1 h2] .
qed

section \<open>Rank fusion over the machine's arithmetic: determinism and ties\<close>


















section \<open>Context builder: lemmas and the claim\<close>

lemma py_join_length:
  "int (length (py_join sep xs)) = (\<Sum>x\<leftarrow>xs. int (length x)) + int (length sep) * (int (length xs) - 1) + (if xs = [] then int (length sep) else 0)"
  by (induction sep xs rule: py_join.induct) (simp_all add: algebra_simps)

lemma format_pericope_length: "0 < length (format_pericope r)"
  by (simp add: format_pericope_def lit_def)

lemma build_loop_prefix:
  "\<exists>m\<le>length rs.
     build_loop mc rs parts md tot
       = (parts @ map format_pericope (take m rs), md @ map meta_of (take m rs)) \<and>
     (parts \<noteq> [] \<longrightarrow> m = 0 \<or> tot + segments_length (take m rs) \<le> mc) \<and>
     (parts = [] \<and> rs \<noteq> [] \<longrightarrow> 1 \<le> m \<and> (m = 1 \<or> tot + segments_length (take m rs) \<le> mc))"
proof (induction rs arbitrary: parts md tot)
  case Nil
  then show ?case by simp
next
  case (Cons r rs)
  let ?t = "format_pericope r"
  let ?len = "int (length ?t)"
  show ?case
  proof (cases "tot + ?len > mc \<and> parts \<noteq> []")
    case True
    then have "build_loop mc (r # rs) parts md tot = (parts, md)" by (simp add: Let_def)
    then show ?thesis using True by (intro exI[of _ 0]) simp
  next
    case False
    have step: "build_loop mc (r # rs) parts md tot
        = build_loop mc rs (parts @ [?t]) (md @ [meta_of r]) (tot + ?len)"
      by (simp only: build_loop.simps Let_def if_not_P[OF False])
    from Cons.IH[of "parts @ [?t]" "md @ [meta_of r]" "tot + ?len"]
    obtain m where m: "m \<le> length rs"
      "build_loop mc rs (parts @ [?t]) (md @ [meta_of r]) (tot + ?len)
        = ((parts @ [?t]) @ map format_pericope (take m rs),
           (md @ [meta_of r]) @ map meta_of (take m rs))"
      "m = 0 \<or> tot + ?len + segments_length (take m rs) \<le> mc"
      by auto
    have sl: "segments_length (take (Suc m) (r # rs)) = ?len + segments_length (take m rs)"
      by (simp add: segments_length_def)
    have a: "build_loop mc (r # rs) parts md tot
        = (parts @ map format_pericope (take (Suc m) (r # rs)),
           md @ map meta_of (take (Suc m) (r # rs)))"
      using step m(2) by simp
    have b: "parts \<noteq> [] \<longrightarrow> tot + segments_length (take (Suc m) (r # rs)) \<le> mc"
      using False m(3) sl by (auto simp: segments_length_def)
    have c: "Suc m = 1 \<or> tot + segments_length (take (Suc m) (r # rs)) \<le> mc"
      using m(3) sl by auto
    show ?thesis using m(1) a b c by (intro exI[of _ "Suc m"]) simp
  qed
qed

lemma segments_length_nonneg: "0 \<le> segments_length rs"
  unfolding segments_length_def by (induction rs) simp_all

lemma segments_length_take1: "rs \<noteq> [] \<Longrightarrow> segments_length (take 1 rs) = int (length (format_pericope (hd rs)))"
  by (cases rs) (simp_all add: segments_length_def)

lemma segments_length_ge_first:
  "1 \<le> n \<Longrightarrow> rs \<noteq> [] \<Longrightarrow> int (length (format_pericope (hd rs))) \<le> segments_length (take n rs)"
proof -
  assume a: "1 \<le> n" "rs \<noteq> []"
  then obtain r rs' n' where e: "rs = r # rs'" "n = Suc n'" by (cases rs; cases n) auto
  have "segments_length (take n rs) = int (length (format_pericope r)) + segments_length (take n' rs')"
    using e by (simp add: segments_length_def)
  then show ?thesis using e segments_length_nonneg[of "take n' rs'"] by simp
qed

lemma max_chars_bound:
  assumes "s \<le> max_chars self" "0 < s"
  shows "of_int s \<le> of_int (max_tokens self) * chars_per_token self"
proof -
  let ?x = "of_int (max_tokens self) * chars_per_token self :: rat"
  have "0 \<le> ?x"
  proof (rule ccontr)
    assume "\<not> 0 \<le> ?x"
    then have "max_chars self = \<lceil>?x\<rceil>" "?x \<le> 0" by (simp_all add: max_chars_def py_int_def)
    then have "max_chars self \<le> 0" by (simp add: ceiling_le_zero)
    then show False using assms by simp
  qed
  then have "max_chars self = \<lfloor>?x\<rfloor>" by (simp add: max_chars_def py_int_def)
  then have "of_int (max_chars self) \<le> ?x" by simp
  moreover have "(of_int s :: rat) \<le> of_int (max_chars self)" using assms(1) by simp
  ultimately show ?thesis by linarith
qed

lemma max_chars_exceeded:
  assumes "max_chars self < s" "0 < s"
  shows "of_int (max_tokens self) * chars_per_token self < of_int s"
proof -
  let ?x = "of_int (max_tokens self) * chars_per_token self :: rat"
  show ?thesis
  proof (cases "0 \<le> ?x")
    case True
    then have "max_chars self = \<lfloor>?x\<rfloor>" by (simp add: max_chars_def py_int_def)
    then have "\<lfloor>?x\<rfloor> < s" using assms(1) by simp
    then show ?thesis by (simp add: floor_less_iff)
  next
    case False
    then have "?x < 0" by simp
    moreover have "(0::rat) < of_int s" using assms(2) by simp
    ultimately show ?thesis by linarith
  qed
qed

text \<open>
  Claim C2, as the code has it. For a non-empty result list the builder includes a prefix
  of \<open>n \<ge> 1\<close> results, in order, each as its whole formatted segment, and the metadata
  list describes exactly those. The budget is checked on the summed length of the segments:
  that sum is at most \<open>max_tokens * 1.5\<close> unless only the first segment was included and it
  alone exceeds the budget. The separators are not counted: the context string is longer
  than the sum by 7 characters for each of the \<open>n - 1\<close> separators.
\<close>

theorem build_with_metadata_budget:
  assumes "results \<noteq> []"
  shows "\<exists>n. 1 \<le> n \<and> n \<le> length results \<and>
     build_with_metadata self results
       = (py_join separator (map format_pericope (take n results)),
          map meta_of (take n results)) \<and>
     (of_int (segments_length (take n results)) \<le> of_int (max_tokens self) * chars_per_token self \<or>
      n = 1 \<and> of_int (max_tokens self) * chars_per_token self
                < of_int (int (length (format_pericope (hd results))))) \<and>
     int (length (fst (build_with_metadata self results)))
       = segments_length (take n results) + 7 * (int n - 1)"
proof -
  from build_loop_prefix[of results "max_chars self" "[]" "[]" 0] assms
  obtain n where n: "n \<le> length results" "1 \<le> n"
    "build_loop (max_chars self) results [] [] 0
       = (map format_pericope (take n results), map meta_of (take n results))"
    "n = 1 \<or> segments_length (take n results) \<le> max_chars self"
    by auto
  have bwm: "build_with_metadata self results
       = (py_join separator (map format_pericope (take n results)),
          map meta_of (take n results))"
    using assms n(3) by (simp add: build_with_metadata_def)
  have first_pos: "0 < int (length (format_pericope (hd results)))"
    using format_pericope_length[of "hd results"] by simp
  have pos: "0 < segments_length (take n results)"
    using segments_length_ge_first[OF n(2) assms] first_pos by linarith
  have budget: "of_int (segments_length (take n results)) \<le> of_int (max_tokens self) * chars_per_token self \<or>
      n = 1 \<and> of_int (max_tokens self) * chars_per_token self
                < of_int (int (length (format_pericope (hd results))))"
  proof (cases "segments_length (take n results) \<le> max_chars self")
    case True
    then show ?thesis using max_chars_bound[OF True pos] by simp
  next
    case False
    then have n1: "n = 1" using n(4) by simp
    then have "max_chars self < int (length (format_pericope (hd results)))"
      using False segments_length_take1[OF assms] by simp
    then show ?thesis using n1 max_chars_exceeded[OF _ first_pos] by simp
  qed
  have tn: "take n results \<noteq> []" "length (take n results) = n" using n(1,2) assms by auto
  have "int (length (py_join separator (map format_pericope (take n results))))
      = segments_length (take n results) + 7 * (int n - 1)"
    using tn by (simp add: py_join_length segments_length_def separator_def comp_def)
  then have len: "int (length (fst (build_with_metadata self results)))
       = segments_length (take n results) + 7 * (int n - 1)"
    using bwm by simp
  show ?thesis using n(1,2) bwm budget len by blast
qed

theorem build_with_metadata_budget_witness:
  "\<exists>n. 1 \<le> n \<and> n \<le> length two_short \<and>
     build_with_metadata (ContextBuilder_init default_settings None) two_short
       = (py_join separator (map format_pericope (take n two_short)),
          map meta_of (take n two_short)) \<and>
     (of_int (segments_length (take n two_short))
        \<le> of_int (max_tokens (ContextBuilder_init default_settings None))
            * chars_per_token (ContextBuilder_init default_settings None) \<or>
      n = 1 \<and> of_int (max_tokens (ContextBuilder_init default_settings None))
                * chars_per_token (ContextBuilder_init default_settings None)
                < of_int (int (length (format_pericope (hd two_short))))) \<and>
     int (length (fst (build_with_metadata (ContextBuilder_init default_settings None) two_short)))
       = segments_length (take n two_short) + 7 * (int n - 1)"
proof -
  have h: "two_short \<noteq> []" by (simp add: two_short_def)
  show ?thesis using build_with_metadata_budget[OF h] .
qed

lemma digits_small: "n < 10 \<Longrightarrow> digits n = [48 + n]"
  by (simp add: digits.simps)

lemma example_fused_length: "length (format_pericope (example_fused i n)) = 21 + n"
  by (simp add: format_pericope_def format_reference_def example_fused_def lit_def str_int_def
      digits_small)

text \<open>
  Claim C2 as stated fails: with the default budget of 4000 tokens (6000 characters) and two
  results whose segments are 3000 characters each, both are included and the context string
  has 6007 characters, although the first segment alone is well within the budget.
\<close>

theorem context_budget_counterexample:
  "two_long \<noteq> [] \<and>
   rat_of_nat (length (fst (build_with_metadata (ContextBuilder_init default_settings None) two_long)))
     > 4000 * (3 / 2) \<and>
   rat_of_nat (length (format_pericope (hd two_long))) \<le> 4000 * (3 / 2)"
  by (simp add: two_long_def build_with_metadata_def ContextBuilder_init_def default_settings_def
      max_chars_def py_int_def Let_def example_fused_length separator_def)

section \<open>Graph retriever: the general strategy\<close>

lemma dedup_loop_acc: "dedup_loop xs seen acc = acc @ dedup_loop xs seen []"
proof (induction xs arbitrary: seen acc)
  case Nil
  then show ?case by simp
next
  case (Cons r rs)
  show ?case
  proof (cases "id_p r \<in> seen")
    case True
    then show ?thesis using Cons.IH[of seen acc] by simp
  next
    case False
    then show ?thesis
      using Cons.IH[of "insert (id_p r) seen" "acc @ [r]"] Cons.IH[of "insert (id_p r) seen" "[r]"]
      by simp
  qed
qed

lemma dedup_loop_Cons:
  "dedup_loop (r # rs) seen [] =
     (if id_p r \<notin> seen then r # dedup_loop rs (insert (id_p r) seen) [] else dedup_loop rs seen [])"
  using dedup_loop_acc[of rs "insert (id_p r) seen" "[r]"] by simp

lemma dedup_loop_ids:
  "set (map id_p (dedup_loop xs seen [])) = set (map id_p xs) - seen"
  by (induction xs arbitrary: seen) (auto simp: dedup_loop_Cons simp del: dedup_loop.simps(2))

lemma dedup_loop_subset: "set (dedup_loop xs seen []) \<subseteq> set xs"
  by (induction xs arbitrary: seen) (auto simp: dedup_loop_Cons simp del: dedup_loop.simps(2))

lemma dedup_loop_distinct: "distinct (map id_p (dedup_loop xs seen []))"
proof (induction xs arbitrary: seen)
  case Nil
  then show ?case by simp
next
  case (Cons r rs)
  have "id_p r \<notin> set (map id_p (dedup_loop rs (insert (id_p r) seen) []))"
    unfolding dedup_loop_ids by simp
  then show ?case using Cons by (simp add: dedup_loop_Cons del: dedup_loop.simps(2))
qed

lemma dedup_loop_sorted:
  "sorted_wrt R xs \<Longrightarrow> sorted_wrt R (dedup_loop xs seen [])"
proof (induction xs arbitrary: seen)
  case Nil
  then show ?case by simp
next
  case (Cons r rs)
  have "\<forall>y\<in>set (dedup_loop rs (insert (id_p r) seen) []). R r y"
    using Cons.prems dedup_loop_subset[of rs "insert (id_p r) seen"] by auto
  then show ?case using Cons by (simp add: dedup_loop_Cons del: dedup_loop.simps(2))
qed

lemma dedup_loop_best:
  assumes "sorted_wrt (\<lambda>a b. score b \<le> score a) xs"
    and "r \<in> set (dedup_loop xs seen [])" and "r' \<in> set xs" and "id_p r' = id_p r"
  shows "score r' \<le> score r"
  using assms
proof (induction xs arbitrary: seen)
  case Nil
  then show ?case by simp
next
  case (Cons x xs)
  have sorted_tl: "sorted_wrt (\<lambda>a b. score b \<le> score a) xs"
    and hd_max: "\<forall>y\<in>set xs. score y \<le> score x"
    using Cons.prems(1) by simp_all
  show ?case
  proof (cases "id_p x \<in> seen")
    case True
    then have r: "r \<in> set (dedup_loop xs seen [])" using Cons.prems(2) by (simp add: dedup_loop_Cons del: dedup_loop.simps(2))
    then have "id_p r \<notin> seen" using dedup_loop_ids[of xs seen] by (metis DiffD2 image_eqI set_map)
    then have "r' \<noteq> x" using True Cons.prems(4) by auto
    then have "r' \<in> set xs" using Cons.prems(3) by simp
    then show ?thesis using Cons.IH[OF sorted_tl r _ Cons.prems(4)] by simp
  next
    case False
    then have "r = x \<or> r \<in> set (dedup_loop xs (insert (id_p x) seen) [])"
      using Cons.prems(2) by (simp add: dedup_loop_Cons del: dedup_loop.simps(2))
    then show ?thesis
    proof
      assume "r = x"
      then show ?thesis using hd_max Cons.prems(3) by auto
    next
      assume r: "r \<in> set (dedup_loop xs (insert (id_p x) seen) [])"
      then have "id_p r \<notin> insert (id_p x) seen"
        using dedup_loop_ids[of xs "insert (id_p x) seen"] by (metis DiffD2 image_eqI set_map)
      then have "r' \<noteq> x" using Cons.prems(4) by auto
      then have "r' \<in> set xs" using Cons.prems(3) by simp
      then show ?thesis using Cons.IH[OF sorted_tl r _ Cons.prems(4)] by simp
    qed
  qed
qed

lemma sort_by_score_sorted: "sorted_wrt (\<lambda>a b. score b \<le> score a) (sort_by_score rs)"
proof -
  have "sorted (map (\<lambda>x. - score x) (sort_key (\<lambda>x. - score x) rs))" by (rule sorted_sort_key)
  then show ?thesis by (simp add: sort_by_score_def sorted_map)
qed

lemma set_sort_by_score: "set (sort_by_score rs) = set rs"
  by (simp add: sort_by_score_def)

text \<open>
  Claim C4, as the code has it. The general strategy runs the person, topic and event
  strategies, each once and each with the limit \<open>max (top_k div 3) 5\<close>; it returns the first
  \<open>top_k\<close> entries of a list \<open>unique\<close> that has every passage id of the merged results exactly
  once, holds for each id a result whose score is the highest among the merged results with
  that id, and is in descending score order.
\<close>

theorem retrieve_general_merge:
  "\<exists>unique.
     retrieve_general env keywords top_k
       = ([PersonStrategy keywords (max (top_k div 3) 5),
           TopicStrategy keywords (max (top_k div 3) 5),
           EventStrategy keywords (max (top_k div 3) 5)],
          py_take top_k unique) \<and>
     (0 \<le> top_k \<longrightarrow> py_take top_k unique = take (nat top_k) unique) \<and>
     distinct (map id_p unique) \<and>
     set (map id_p unique) = set (map id_p (merged_results env keywords top_k)) \<and>
     set unique \<subseteq> set (merged_results env keywords top_k) \<and>
     (\<forall>r\<in>set unique. \<forall>r'\<in>set (merged_results env keywords top_k).
        id_p r' = id_p r \<longrightarrow> score r' \<le> score r) \<and>
     sorted_wrt (\<lambda>a b. score b \<le> score a) unique"
proof -
  let ?m = "merged_results env keywords top_k"
  let ?u = "dedup_loop (sort_by_score ?m) {} []"
  have a: "retrieve_general env keywords top_k
       = ([PersonStrategy keywords (max (top_k div 3) 5),
           TopicStrategy keywords (max (top_k div 3) 5),
           EventStrategy keywords (max (top_k div 3) 5)],
          py_take top_k ?u)"
    by (simp add: retrieve_general_def merged_results_def retrieve_by_person_def
        retrieve_by_topic_def retrieve_by_event_def k_per_type_def)
  have b: "0 \<le> top_k \<longrightarrow> py_take top_k ?u = take (nat top_k) ?u" by (simp add: py_take_def)
  have c: "distinct (map id_p ?u)" by (rule dedup_loop_distinct)
  have d: "set (map id_p ?u) = set (map id_p ?m)"
    using dedup_loop_ids[of "sort_by_score ?m" "{}"] by (simp add: set_sort_by_score)
  have e: "set ?u \<subseteq> set ?m"
    using dedup_loop_subset[of "sort_by_score ?m" "{}"] by (simp add: set_sort_by_score)
  have f: "\<forall>r\<in>set ?u. \<forall>r'\<in>set ?m. id_p r' = id_p r \<longrightarrow> score r' \<le> score r"
    using dedup_loop_best[OF sort_by_score_sorted, of _ ?m "{}"] by (simp add: set_sort_by_score)
  have g: "sorted_wrt (\<lambda>a b. score b \<le> score a) ?u"
    using sort_by_score_sorted by (rule dedup_loop_sorted)
  show ?thesis using a b c d e f g by blast
qed


theorem retrieve_general_merge_witness:
  "\<exists>unique.
     retrieve_general example_env [lit ''Moses''] 20
       = ([PersonStrategy [lit ''Moses''] 6, TopicStrategy [lit ''Moses''] 6,
           EventStrategy [lit ''Moses''] 6],
          take 20 unique) \<and>
     distinct (map id_p unique) \<and>
     set (map id_p unique) = set (map id_p (merged_results example_env [lit ''Moses''] 20)) \<and>
     set unique \<subseteq> set (merged_results example_env [lit ''Moses''] 20) \<and>
     (\<forall>r\<in>set unique. \<forall>r'\<in>set (merged_results example_env [lit ''Moses''] 20).
        id_p r' = id_p r \<longrightarrow> score r' \<le> score r) \<and>
     sorted_wrt (\<lambda>a b. score b \<le> score a) unique"
proof -
  from retrieve_general_merge[of example_env "[lit ''Moses'']" 20]
  obtain unique where u:
    "retrieve_general example_env [lit ''Moses''] 20
       = ([PersonStrategy [lit ''Moses''] (max (20 div 3) 5),
           TopicStrategy [lit ''Moses''] (max (20 div 3) 5),
           EventStrategy [lit ''Moses''] (max (20 div 3) 5)],
          py_take 20 unique)"
    "(0::int) \<le> 20 \<longrightarrow> py_take 20 unique = take (nat 20) unique"
    "distinct (map id_p unique)"
    "set (map id_p unique) = set (map id_p (merged_results example_env [lit ''Moses''] 20))"
    "set unique \<subseteq> set (merged_results example_env [lit ''Moses''] 20)"
    "\<forall>r\<in>set unique. \<forall>r'\<in>set (merged_results example_env [lit ''Moses''] 20).
        id_p r' = id_p r \<longrightarrow> score r' \<le> score r"
    "sorted_wrt (\<lambda>a b. score b \<le> score a) unique"
    by blast
  have "retrieve_general example_env [lit ''Moses''] 20
       = ([PersonStrategy [lit ''Moses''] 6, TopicStrategy [lit ''Moses''] 6,
           EventStrategy [lit ''Moses''] 6],
          take 20 unique)"
    using u(1,2) by simp
  then show ?thesis using u(3-7) by blast
qed

text \<open>
  Claim C4 as stated fails on the size of the split: for \<open>top_k = 3\<close> a third is 1, yet each
  scoped strategy is run with the limit 5.
\<close>

theorem general_split_counterexample:
  "fst (retrieve_general example_env [lit ''Moses''] 3)
     = [PersonStrategy [lit ''Moses''] 5, TopicStrategy [lit ''Moses''] 5,
        EventStrategy [lit ''Moses''] 5] \<and>
   (3::int) div 3 \<noteq> 5"
  by (simp add: retrieve_general_def retrieve_by_person_def retrieve_by_topic_def
      retrieve_by_event_def k_per_type_def)

section \<open>Pipeline: the trace of a request\<close>

lemma classify_stage_explicit:
  "mode \<noteq> lit ''auto'' \<Longrightarrow> classify_stage env query mode = ([], Inr (py_upper (unicode_upper env) mode))"
  by (simp add: classify_stage_def)

lemma retrieve_by_logs:
  "fst (retrieve_by_person env n k) = [PersonStrategy n k]"
  "fst (retrieve_by_topic env n k) = [TopicStrategy n k]"
  "fst (retrieve_by_event env n k) = [EventStrategy n k]"
  "fst (retrieve_general env n k)
     = [PersonStrategy n (k_per_type k), TopicStrategy n (k_per_type k), EventStrategy n (k_per_type k)]"
  by (simp_all add: retrieve_by_person_def retrieve_by_topic_def retrieve_by_event_def
      retrieve_general_def)

lemma extract_log:
  "e \<in> set (fst (extract_entities_from_query env g query qt)) \<Longrightarrow> e = ExtractCall qt query"
  by (auto simp: extract_entities_from_query_def split: if_splits sum.splits)

lemma retrieve_log:
  assumes "e \<in> set (fst (retrieve env g query qt k))"
  shows "is_graph e \<and> \<not> is_classify e \<and> \<not> is_generate e \<and> event_tag e \<in> {None, Some qt} \<and> fused_sources e = []"
proof -
  obtain l ents where x: "extract_entities_from_query env g query qt = (l, ents)"
    by (cases "extract_entities_from_query env g query qt")
  have l: "\<And>e. e \<in> set l \<Longrightarrow> e = ExtractCall qt query"
    using extract_log[of _ env g query qt] x by simp
  have "e \<in> set l \<or> e \<in> set (fst (retrieve_by_person env ents k))
      \<or> e \<in> set (fst (retrieve_by_topic env ents k))
      \<or> e \<in> set (fst (retrieve_by_event env ents k))
      \<or> e \<in> set (fst (retrieve_general env ents k))"
    using assms x by (auto simp: retrieve_def split: if_splits prod.splits)
  then have "e = ExtractCall qt query \<or> e \<in> set (fst (retrieve_by_person env ents k))
      \<or> e \<in> set (fst (retrieve_by_topic env ents k))
      \<or> e \<in> set (fst (retrieve_by_event env ents k))
      \<or> e \<in> set (fst (retrieve_general env ents k))"
    using l by blast
  then show ?thesis by (auto simp: retrieve_by_logs)
qed

lemma graph_stage_cases:
  "graph_stage env self query qt ig = ([], []) \<or>
   (\<exists>g. graph_retriever self = Some g \<and> ig \<and> neo4j_available env \<and>
      graph_stage env self query qt ig
        = (GraphRetrieveCall query qt (MAX_RETRIEVE_RESULTS (settings env))
             # fst (retrieve env g query qt (MAX_RETRIEVE_RESULTS (settings env))),
           snd (retrieve env g query qt (MAX_RETRIEVE_RESULTS (settings env)))))"
  by (auto simp: graph_stage_def split: option.splits prod.splits)

lemma graph_stage_log:
  assumes "e \<in> set (fst (graph_stage env self query qt ig))"
  shows "is_graph e \<and> \<not> is_classify e \<and> \<not> is_generate e \<and> event_tag e \<in> {None, Some qt} \<and> fused_sources e = []"
proof -
  from graph_stage_cases[of env self query qt ig] show ?thesis
  proof
    assume "graph_stage env self query qt ig = ([], [])"
    then show ?thesis using assms by simp
  next
    assume "\<exists>g. graph_retriever self = Some g \<and> ig \<and> neo4j_available env \<and>
      graph_stage env self query qt ig
        = (GraphRetrieveCall query qt (MAX_RETRIEVE_RESULTS (settings env))
             # fst (retrieve env g query qt (MAX_RETRIEVE_RESULTS (settings env))),
           snd (retrieve env g query qt (MAX_RETRIEVE_RESULTS (settings env))))"
    then obtain g where g: "graph_stage env self query qt ig
        = (GraphRetrieveCall query qt (MAX_RETRIEVE_RESULTS (settings env))
             # fst (retrieve env g query qt (MAX_RETRIEVE_RESULTS (settings env))),
           snd (retrieve env g query qt (MAX_RETRIEVE_RESULTS (settings env))))" by blast
    then have "e = GraphRetrieveCall query qt (MAX_RETRIEVE_RESULTS (settings env))
        \<or> e \<in> set (fst (retrieve env g query qt (MAX_RETRIEVE_RESULTS (settings env))))"
      using assms by simp
    then show ?thesis
    proof
      assume "e = GraphRetrieveCall query qt (MAX_RETRIEVE_RESULTS (settings env))"
      then show ?thesis by simp
    next
      assume "e \<in> set (fst (retrieve env g query qt (MAX_RETRIEVE_RESULTS (settings env))))"
      then show ?thesis by (rule retrieve_log)
    qed
  qed
qed

lemma graph_stage_off:
  "\<not> ig \<or> \<not> neo4j_available env \<Longrightarrow> graph_stage env self query qt ig = ([], [])"
  by (auto simp: graph_stage_def split: option.splits)

lemma fuse_stage_log:
  "e \<in> set (fst (fuse_stage k rl)) \<Longrightarrow> e = FuseCall (map fst rl)"
  by (auto simp: fuse_stage_def split: if_splits)

lemma pipeline_front_Inl:
  "classify_stage env query mode = (l1, Inl err) \<Longrightarrow>
   pipeline_front env self query mode options = (l1, Inl err)"
  by (simp add: pipeline_front_def)

lemma pipeline_front_Inr:
  assumes "classify_stage env query mode = (l1, Inr qt)"
  shows "pipeline_front env self query mode options =
    (l1 @ fst (dense_stage env query) @ fst (sparse_stage env query)
        @ fst (graph_stage env self query qt (get_include_graph options))
        @ fst (fuse_stage (fusion self)
                (make_result_lists (snd (dense_stage env query)) (snd (sparse_stage env query))
                   (snd (graph_stage env self query qt (get_include_graph options))))),
     (case snd (fuse_stage (fusion self)
                (make_result_lists (snd (dense_stage env query)) (snd (sparse_stage env query))
                   (snd (graph_stage env self query qt (get_include_graph options))))) of
        Inl e \<Rightarrow> Inl e
      | Inr fused_results \<Rightarrow>
          Inr \<lparr>fs_query_type = qt,
               fs_used_retrievers = used_names (snd (dense_stage env query))
                 (snd (sparse_stage env query))
                 (snd (graph_stage env self query qt (get_include_graph options))),
               fs_graph_context_data =
                 (if snd (graph_stage env self query qt (get_include_graph options)) \<noteq> []
                  then build_graph_context env
                         (snd (graph_stage env self query qt (get_include_graph options)))
                  else ([], [])),
               fs_fused_results = py_take (get_max_results env options) fused_results\<rparr>))"
  unfolding pipeline_front_def assms
  by (simp add: case_prod_beta split: sum.splits)

lemma pipeline_back_log:
  "e \<in> set (fst (pipeline_back env self query fs)) \<Longrightarrow>
     fs_fused_results fs \<noteq> [] \<and>
     e = GenerateCall query (fst (build_with_metadata (context_builder self) (fs_fused_results fs)))
           (fs_query_type fs)"
  by (auto simp: pipeline_back_def case_prod_beta split: if_splits sum.splits)

lemma pipeline_back_meta:
  "snd (pipeline_back env self query fs) = Inr resp \<Longrightarrow>
     qm_query_type (resp_meta resp) = fs_query_type fs \<and>
     qm_used_retrievers (resp_meta resp) = fs_used_retrievers fs"
  by (auto simp: pipeline_back_def case_prod_beta split: if_splits sum.splits)

lemma pipeline_back_empty:
  "fs_fused_results fs = [] \<Longrightarrow>
     \<exists>resp. pipeline_back env self query fs = ([], Inr resp) \<and>
       resp_answer resp = apology_text \<and> resp_segments resp = [] \<and>
       qm_used_retrievers (resp_meta resp) = fs_used_retrievers fs"
  by (simp add: pipeline_back_def case_prod_beta)

lemma execute_Inl:
  "pipeline_front env self query mode options = (l, Inl err) \<Longrightarrow>
   execute env self query mode options = (l, Inl err)"
  by (simp add: execute_def)

lemma execute_Inr:
  "pipeline_front env self query mode options = (l, Inr fs) \<Longrightarrow>
   execute env self query mode options
     = (l @ fst (pipeline_back env self query fs), snd (pipeline_back env self query fs))"
  by (simp add: execute_def case_prod_beta)

lemma front_log_events:
  assumes "e \<in> set (fst (pipeline_front env self query mode options))"
    and "classify_stage env query mode = (l1, r)"
  shows "e \<in> set l1 \<or>
     (\<not> is_classify e \<and> \<not> is_generate e \<and>
      (\<exists>qt. r = Inr qt \<and> event_tag e \<in> {None, Some qt} \<and>
         (is_graph e \<longrightarrow> e \<in> set (fst (graph_stage env self query qt (get_include_graph options)))) \<and>
         (fused_sources e = [] \<or> fused_sources e = map fst (make_result_lists (snd (dense_stage env query))
            (snd (sparse_stage env query))
            (snd (graph_stage env self query qt (get_include_graph options)))))))"
proof (cases r)
  case (Inl err)
  then show ?thesis using assms by (simp add: pipeline_front_Inl)
next
  case (Inr qt)
  let ?g = "graph_stage env self query qt (get_include_graph options)"
  let ?rl = "make_result_lists (snd (dense_stage env query)) (snd (sparse_stage env query)) (snd ?g)"
  have "e \<in> set l1 \<or> e \<in> set (fst (dense_stage env query)) \<or> e \<in> set (fst (sparse_stage env query))
      \<or> e \<in> set (fst ?g) \<or> e \<in> set (fst (fuse_stage (fusion self) ?rl))"
    using assms Inr by (simp add: pipeline_front_Inr)
  then consider (c) "e \<in> set l1"
    | (d) "e = DenseCall query (MAX_RETRIEVE_RESULTS (settings env))"
    | (s) "e = SparseCall query (MAX_RETRIEVE_RESULTS (settings env))"
    | (g) "e \<in> set (fst ?g)"
    | (f) "e = FuseCall (map fst ?rl)"
    using fuse_stage_log[of e "fusion self" ?rl]
    by (auto simp: dense_stage_def sparse_stage_def)
  then show ?thesis
  proof cases
    case c then show ?thesis by simp
  next
    case d then show ?thesis using Inr by simp
  next
    case s then show ?thesis using Inr by simp
  next
    case g then show ?thesis using Inr graph_stage_log[OF g] by simp
  next
    case f then show ?thesis using Inr by simp
  qed
qed

lemma execute_log_events:
  assumes "e \<in> set (fst (execute env self query mode options))"
    and "classify_stage env query mode = (l1, r)"
  shows "e \<in> set l1 \<or>
     (\<not> is_classify e \<and> (\<exists>qt. r = Inr qt \<and> event_tag e \<in> {None, Some qt} \<and>
         (is_graph e \<longrightarrow> e \<in> set (fst (graph_stage env self query qt (get_include_graph options)))) \<and>
         (fused_sources e = [] \<or> fused_sources e = map fst (make_result_lists (snd (dense_stage env query))
            (snd (sparse_stage env query))
            (snd (graph_stage env self query qt (get_include_graph options)))))))"
proof -
  obtain l x where fr: "pipeline_front env self query mode options = (l, x)"
    by (cases "pipeline_front env self query mode options")
  show ?thesis
  proof (cases x)
    case (Inl err)
    then have "e \<in> set (fst (pipeline_front env self query mode options))"
      using assms(1) fr by (simp add: execute_Inl)
    then show ?thesis using front_log_events[OF _ assms(2)] by blast
  next
    case (Inr fs)
    have qt: "r = Inr (fs_query_type fs)"
    proof (cases r)
      case (Inl err)
      then show ?thesis using fr Inr assms(2) by (simp add: pipeline_front_Inl)
    next
      case (Inr qt)
      then show ?thesis using fr \<open>x = Inr fs\<close> assms(2)
        by (auto simp: pipeline_front_Inr split: sum.splits)
    qed
    have "e \<in> set l \<or> e \<in> set (fst (pipeline_back env self query fs))"
      using assms(1) fr Inr by (simp add: execute_Inr)
    then show ?thesis
    proof
      assume "e \<in> set l"
      then have "e \<in> set (fst (pipeline_front env self query mode options))" using fr by simp
      then show ?thesis using front_log_events[OF _ assms(2)] by blast
    next
      assume "e \<in> set (fst (pipeline_back env self query fs))"
      then have "e = GenerateCall query (fst (build_with_metadata (context_builder self) (fs_fused_results fs)))
           (fs_query_type fs)" using pipeline_back_log by blast
      then show ?thesis using qt by simp
    qed
  qed
qed

lemma execute_query_type:
  assumes "snd (execute env self query mode options) = Inr resp"
    and "classify_stage env query mode = (l1, r)"
  shows "r = Inr (qm_query_type (resp_meta resp))"
proof -
  obtain l x where fr: "pipeline_front env self query mode options = (l, x)"
    by (cases "pipeline_front env self query mode options")
  show ?thesis
  proof (cases x)
    case (Inl err)
    then show ?thesis using assms(1) fr by (simp add: execute_Inl)
  next
    case (Inr fs)
    have qt: "r = Inr (fs_query_type fs)"
    proof (cases r)
      case (Inl err)
      then show ?thesis using fr Inr assms(2) by (simp add: pipeline_front_Inl)
    next
      case (Inr qt)
      then show ?thesis using fr \<open>x = Inr fs\<close> assms(2)
        by (auto simp: pipeline_front_Inr split: sum.splits)
    qed
    have "snd (pipeline_back env self query fs) = Inr resp"
      using assms(1) fr Inr by (simp add: execute_Inr)
    then show ?thesis using qt pipeline_back_meta by simp
  qed
qed

text \<open>
  Claim C8. When \<open>mode\<close> is not \<open>auto\<close>, the trace of \<open>execute\<close> holds no call of the
  classification prompt, every call that carries a classification tag (graph retrieval,
  entity extraction, answer generation) carries the uppercased mode, and a response, when
  one is returned, reports the uppercased mode as its \<open>query_type\<close>.
\<close>

theorem explicit_mode_skips_classifier:
  assumes "mode \<noteq> lit ''auto''"
  shows "(\<forall>e\<in>set (fst (execute env self query mode options)).
            \<not> is_classify e \<and> event_tag e \<in> {None, Some (py_upper (unicode_upper env) mode)}) \<and>
         (\<forall>resp. snd (execute env self query mode options) = Inr resp \<longrightarrow>
            qm_query_type (resp_meta resp) = py_upper (unicode_upper env) mode)"
proof -
  have c: "classify_stage env query mode = ([], Inr (py_upper (unicode_upper env) mode))"
    using assms by (rule classify_stage_explicit)
  have a: "\<forall>e\<in>set (fst (execute env self query mode options)).
            \<not> is_classify e \<and> event_tag e \<in> {None, Some (py_upper (unicode_upper env) mode)}"
    using execute_log_events[OF _ c] by auto
  have b: "\<forall>resp. snd (execute env self query mode options) = Inr resp \<longrightarrow>
            qm_query_type (resp_meta resp) = py_upper (unicode_upper env) mode"
    using execute_query_type[OF _ c] by auto
  show ?thesis using a b by blast
qed

lemma fused_scores_nonneg:
  assumes "0 \<le> k" "fuse k rl = Inr out" "f \<in> set out"
  shows "0 \<le> score f"
proof -
  have "score f = rrf_total k rl (id_p f)"
    using pairs_score(1)[OF fuse_Inr_pairs[OF assms(2)] assms(3)] .
  moreover have "0 \<le> sum_list (map (rrf_term k) (all_ranks (id_p f) rl))"
  proof (rule sum_list_nonneg)
    fix x assume "x \<in> set (map (rrf_term k) (all_ranks (id_p f) rl))"
    then obtain r where "r \<in> set (all_ranks (id_p f) rl)" "x = rrf_term k r" by auto
    then show "0 \<le> x" using rrf_term_pos[OF assms(1) all_ranks_pos] by (simp add: less_imp_le)
  qed
  ultimately show ?thesis by (simp add: rrf_total_def)
qed

lemma fuse_stage_returns:
  assumes "0 \<le> k"
  shows "\<exists>fused. snd (fuse_stage k rl) = Inr fused \<and> (\<forall>f\<in>set fused. 0 \<le> score f)"
proof (cases "rl = []")
  case True
  then show ?thesis by (simp add: fuse_stage_def)
next
  case False
  from fuse_char[OF nz_of_nonneg[OF assms], of rl] obtain out where out: "fuse k rl = Inr out"
    by blast
  then have "\<forall>f\<in>set out. 0 \<le> score f" using fused_scores_nonneg[OF assms] by blast
  then show ?thesis using False out by (simp add: fuse_stage_def)
qed

lemma set_py_take: "set (py_take n xs) \<subseteq> set xs"
  by (auto simp: py_take_def dest: in_set_takeD)

lemma make_segments_returns:
  "\<forall>f\<in>set fs. 0 \<le> score f \<Longrightarrow> \<exists>segs. make_segments fs = Inr segs"
proof (induction fs)
  case Nil
  then show ?case by simp
next
  case (Cons f fs)
  then obtain segs where "make_segments fs = Inr segs" by auto
  moreover have "0 \<le> score f" using Cons.prems by simp
  then have "\<exists>seg. make_segment f = Inr seg" by (simp add: make_segment_def Let_def)
  ultimately show ?case by auto
qed

lemma pipeline_back_returns:
  assumes "\<forall>f\<in>set (fs_fused_results fs). 0 \<le> score f"
    and "\<And>c. \<exists>a. llm_answer env query c (fs_query_type fs) = Inr a"
  shows "\<exists>resp. snd (pipeline_back env self query fs) = Inr resp"
proof -
  obtain segs where segs: "make_segments (fs_fused_results fs) = Inr segs"
    using make_segments_returns[OF assms(1)] by blast
  obtain a where a: "llm_answer env query
      (fst (build_with_metadata (context_builder self) (fs_fused_results fs))) (fs_query_type fs) = Inr a"
    using assms(2) by blast
  show ?thesis using segs a by (simp add: pipeline_back_def case_prod_beta)
qed

lemma execute_returns:
  assumes c: "classify_stage env query mode = (l1, Inr qt)"
    and k: "0 \<le> fusion self"
    and a: "\<And>c. \<exists>a. llm_answer env query c qt = Inr a"
  shows "\<exists>resp. snd (execute env self query mode options) = Inr resp"
proof -
  let ?rl = "make_result_lists (snd (dense_stage env query)) (snd (sparse_stage env query))
      (snd (graph_stage env self query qt (get_include_graph options)))"
  obtain fused where fused: "snd (fuse_stage (fusion self) ?rl) = Inr fused"
    "\<forall>f\<in>set fused. 0 \<le> score f"
    using fuse_stage_returns[OF k] by blast
  obtain l fs where fr: "pipeline_front env self query mode options = (l, Inr fs)"
    "fs_query_type fs = qt" "fs_fused_results fs = py_take (get_max_results env options) fused"
    using fused(1) by (simp add: pipeline_front_Inr[OF c])
  have "\<forall>f\<in>set (fs_fused_results fs). 0 \<le> score f"
    using fused(2) fr(3) set_py_take by fastforce
  then obtain resp where "snd (pipeline_back env self query fs) = Inr resp"
    using pipeline_back_returns[of fs env query self] a fr(2) by auto
  then show ?thesis using fr(1) by (simp add: execute_Inr)
qed

lemma front_log_in_execute:
  "set (fst (pipeline_front env self query mode options))
     \<subseteq> set (fst (execute env self query mode options))"
proof -
  obtain l x where fr: "pipeline_front env self query mode options = (l, x)"
    by (cases "pipeline_front env self query mode options")
  show ?thesis using fr by (cases x) (simp_all add: execute_Inl execute_Inr)
qed

lemma fuse_call_in_front:
  assumes "classify_stage env query mode = (l1, Inr qt)"
    and "make_result_lists (snd (dense_stage env query)) (snd (sparse_stage env query))
      (snd (graph_stage env self query qt (get_include_graph options))) = rl" and "rl \<noteq> []"
  shows "FuseCall (map fst rl) \<in> set (fst (execute env self query mode options))"
proof -
  have "FuseCall (map fst rl) \<in> set (fst (pipeline_front env self query mode options))"
    using assms(2,3) by (simp add: pipeline_front_Inr[OF assms(1)] fuse_stage_def)
  then show ?thesis using front_log_in_execute by blast
qed

theorem explicit_mode_skips_classifier_witness:
  "filter is_classify
     (fst (execute example_env (RAGPipeline_init example_env True) (lit ''who is Moses'')
             (lit ''person'') None)) = [] \<and>
   list_all (\<lambda>e. event_tag e \<in> {None, Some (lit ''PERSON'')})
     (fst (execute example_env (RAGPipeline_init example_env True) (lit ''who is Moses'')
             (lit ''person'') None)) \<and>
   (\<exists>resp. snd (execute example_env (RAGPipeline_init example_env True) (lit ''who is Moses'')
                  (lit ''person'') None) = Inr resp \<and>
      qm_query_type (resp_meta resp) = lit ''PERSON'')"
proof -
  let ?self = "RAGPipeline_init example_env True"
  let ?run = "execute example_env ?self (lit ''who is Moses'') (lit ''person'') None"
  have h: "lit ''person'' \<noteq> lit ''auto''" by (simp add: lit_def)
  have u: "py_upper (unicode_upper example_env) (lit ''person'') = lit ''PERSON''"
    by (simp add: py_upper_def lit_def)
  note t = explicit_mode_skips_classifier[OF h, of example_env ?self "lit ''who is Moses''" None]
  have a: "filter is_classify (fst ?run) = []"
    using t by (simp add: filter_empty_conv)
  have b: "list_all (\<lambda>e. event_tag e \<in> {None, Some (lit ''PERSON'')}) (fst ?run)"
    using t unfolding u by (simp add: list_all_iff)
  have c: "classify_stage example_env (lit ''who is Moses'') (lit ''person'')
      = ([], Inr (lit ''PERSON''))"
    using classify_stage_explicit[OF h, of example_env] u by simp
  have k: "0 \<le> fusion ?self"
    by (simp add: RAGPipeline_init_def RRFFusion_init_def example_env_def default_settings_def)
  have "\<And>c. \<exists>a. llm_answer example_env (lit ''who is Moses'') c (lit ''PERSON'') = Inr a"
    by (simp add: example_env_def)
  from execute_returns[OF c k this, of None] obtain resp where resp: "snd ?run = Inr resp"
    by blast
  then have "qm_query_type (resp_meta resp) = lit ''PERSON''" using t u by simp
  then show ?thesis using a b resp by blast
qed

lemma retrieve_general_dispatch:
  assumes "qt \<notin> {lit ''PERSON_QUESTION'', lit ''TOPIC_QUESTION'', lit ''EVENT_QUESTION''}"
    and "neo4j_available env"
    and "snd (extract_entities_from_query env g q qt) \<noteq> []"
  shows "retrieve env g q qt k =
     (fst (extract_entities_from_query env g q qt)
        @ fst (retrieve_general env (snd (extract_entities_from_query env g q qt)) k),
      snd (retrieve_general env (snd (extract_entities_from_query env g q qt)) k))"
  using assms by (simp add: retrieve_def case_prod_beta)

lemma upper_modes:
  "py_upper tbl (lit ''person'') = lit ''PERSON''"
  "py_upper tbl (lit ''topic'') = lit ''TOPIC''"
  "py_upper tbl (lit ''event'') = lit ''EVENT''"
  by (simp_all add: py_upper_def lit_def)

lemma retrieve_log_general:
  assumes "qt \<notin> {lit ''PERSON_QUESTION'', lit ''TOPIC_QUESTION'', lit ''EVENT_QUESTION''}"
    and "neo4j_available env"
  shows "fst (retrieve env g q qt k) =
     fst (extract_entities_from_query env g q qt)
       @ (if snd (extract_entities_from_query env g q qt) = [] then []
          else [PersonStrategy (snd (extract_entities_from_query env g q qt)) (k_per_type k),
                TopicStrategy (snd (extract_entities_from_query env g q qt)) (k_per_type k),
                EventStrategy (snd (extract_entities_from_query env g q qt)) (k_per_type k)])"
  using assms by (simp add: retrieve_def case_prod_beta retrieve_by_logs)

lemma filter_graph_stage:
  "filter is_graph (fst (graph_stage env self query qt ig)) = fst (graph_stage env self query qt ig)"
  using graph_stage_log[of _ env self query qt ig] by (simp add: filter_id_conv)

lemma filter_graph_back: "filter is_graph (fst (pipeline_back env self query fs)) = []"
proof -
  have "\<forall>e\<in>set (fst (pipeline_back env self query fs)). \<not> is_graph e"
  proof
    fix e assume "e \<in> set (fst (pipeline_back env self query fs))"
    then have "e = GenerateCall query
        (fst (build_with_metadata (context_builder self) (fs_fused_results fs))) (fs_query_type fs)"
      using pipeline_back_log by blast
    then show "\<not> is_graph e" by simp
  qed
  then show ?thesis by (simp add: filter_empty_conv)
qed

lemma filter_graph_fuse: "filter is_graph (fst (fuse_stage k rl)) = []"
  by (simp add: fuse_stage_def)

lemma execute_graph_trace:
  assumes "classify_stage env query mode = ([], Inr qt)"
  shows "filter is_graph (fst (execute env self query mode options))
     = fst (graph_stage env self query qt (get_include_graph options))"
proof -
  obtain l x where fr: "pipeline_front env self query mode options = (l, x)"
    by (cases "pipeline_front env self query mode options")
  have l: "filter is_graph l = fst (graph_stage env self query qt (get_include_graph options))"
    using fr unfolding pipeline_front_Inr[OF assms]
    by (auto simp: dense_stage_def sparse_stage_def filter_graph_stage filter_graph_fuse)
  show ?thesis
  proof (cases x)
    case (Inl e)
    then show ?thesis using fr l by (simp add: execute_Inl)
  next
    case (Inr fs)
    then show ?thesis using fr l by (simp add: execute_Inr filter_graph_back)
  qed
qed

lemma graph_stage_on:
  assumes "graph_retriever self = Some g" "neo4j_available env"
  shows "fst (graph_stage env self query qt True)
     = GraphRetrieveCall query qt (MAX_RETRIEVE_RESULTS (settings env))
         # fst (retrieve env g query qt (MAX_RETRIEVE_RESULTS (settings env)))"
  using assms by (simp add: graph_stage_def case_prod_beta)

lemma graph_stage_none: "graph_retriever self = None \<Longrightarrow> graph_stage env self query qt ig = ([], [])"
  by (simp add: graph_stage_def)

text \<open>
  Claim C10. For the modes \<open>person\<close>, \<open>topic\<close> and \<open>event\<close> the tag is \<open>PERSON\<close>, \<open>TOPIC\<close> or
  \<open>EVENT\<close>, which is none of the three tags the scoped strategies are selected by. The graph
  calls in the trace of \<open>execute\<close> are exactly these: none when the pipeline has no graph
  retriever, the option is off or the store is not available; otherwise the call of the
  retriever with the uppercased mode as its tag, the entity extraction, and, when an entity
  was extracted, the three calls of the general strategy, each with the limit
  \<open>k_per_type\<close>, and no call of a scoped strategy with the full limit. With that tag
  \<open>retrieve\<close> returns what the general strategy returns.
\<close>

theorem explicit_mode_general_strategy:
  assumes "mode \<in> {lit ''person'', lit ''topic'', lit ''event''}"
  shows "py_upper (unicode_upper env) mode \<in> {lit ''PERSON'', lit ''TOPIC'', lit ''EVENT''} \<and>
     py_upper (unicode_upper env) mode
       \<notin> {lit ''PERSON_QUESTION'', lit ''TOPIC_QUESTION'', lit ''EVENT_QUESTION''} \<and>
     filter is_graph (fst (execute env self query mode options)) =
       (case graph_retriever self of
          None \<Rightarrow> []
        | Some g \<Rightarrow>
            if get_include_graph options \<and> neo4j_available env then
              GraphRetrieveCall query (py_upper (unicode_upper env) mode)
                  (MAX_RETRIEVE_RESULTS (settings env))
                # fst (extract_entities_from_query env g query (py_upper (unicode_upper env) mode))
                @ (if snd (extract_entities_from_query env g query
                             (py_upper (unicode_upper env) mode)) = [] then []
                   else [PersonStrategy
                           (snd (extract_entities_from_query env g query
                                   (py_upper (unicode_upper env) mode)))
                           (k_per_type (MAX_RETRIEVE_RESULTS (settings env))),
                         TopicStrategy
                           (snd (extract_entities_from_query env g query
                                   (py_upper (unicode_upper env) mode)))
                           (k_per_type (MAX_RETRIEVE_RESULTS (settings env))),
                         EventStrategy
                           (snd (extract_entities_from_query env g query
                                   (py_upper (unicode_upper env) mode)))
                           (k_per_type (MAX_RETRIEVE_RESULTS (settings env)))])
            else []) \<and>
     (\<forall>q t k. GraphRetrieveCall q t k \<in> set (fst (execute env self query mode options)) \<longrightarrow>
        t = py_upper (unicode_upper env) mode) \<and>
     (\<forall>g q k. neo4j_available env \<and>
        snd (extract_entities_from_query env g q (py_upper (unicode_upper env) mode)) \<noteq> [] \<longrightarrow>
        retrieve env g q (py_upper (unicode_upper env) mode) k =
          (fst (extract_entities_from_query env g q (py_upper (unicode_upper env) mode))
             @ fst (retrieve_general env
                      (snd (extract_entities_from_query env g q (py_upper (unicode_upper env) mode))) k),
           snd (retrieve_general env
                  (snd (extract_entities_from_query env g q (py_upper (unicode_upper env) mode))) k)))"
proof -
  let ?t = "py_upper (unicode_upper env) mode"
  let ?M = "MAX_RETRIEVE_RESULTS (settings env)"
  have a: "?t \<in> {lit ''PERSON'', lit ''TOPIC'', lit ''EVENT''}"
    using assms upper_modes by auto
  then have b: "?t \<notin> {lit ''PERSON_QUESTION'', lit ''TOPIC_QUESTION'', lit ''EVENT_QUESTION''}"
    by (auto simp: lit_def)
  have "mode \<noteq> lit ''auto''" using assms by (auto simp: lit_def)
  then have c: "classify_stage env query mode = ([], Inr ?t)" by (rule classify_stage_explicit)
  have tr: "filter is_graph (fst (execute env self query mode options))
      = fst (graph_stage env self query ?t (get_include_graph options))"
    using c by (rule execute_graph_trace)
  have g: "fst (graph_stage env self query ?t (get_include_graph options)) =
       (case graph_retriever self of
          None \<Rightarrow> []
        | Some g \<Rightarrow>
            if get_include_graph options \<and> neo4j_available env then
              GraphRetrieveCall query ?t ?M
                # fst (extract_entities_from_query env g query ?t)
                @ (if snd (extract_entities_from_query env g query ?t) = [] then []
                   else [PersonStrategy (snd (extract_entities_from_query env g query ?t)) (k_per_type ?M),
                         TopicStrategy (snd (extract_entities_from_query env g query ?t)) (k_per_type ?M),
                         EventStrategy (snd (extract_entities_from_query env g query ?t)) (k_per_type ?M)])
            else [])"
  proof (cases "graph_retriever self")
    case None
    then show ?thesis by (simp add: graph_stage_none)
  next
    case (Some g)
    show ?thesis
    proof (cases "get_include_graph options \<and> neo4j_available env")
      case True
      then have "fst (graph_stage env self query ?t (get_include_graph options))
          = GraphRetrieveCall query ?t ?M # fst (retrieve env g query ?t ?M)"
        using graph_stage_on[OF Some, of env query ?t] by simp
      then show ?thesis using Some True retrieve_log_general[OF b, of env g query ?M] by simp
    next
      case False
      then have "graph_stage env self query ?t (get_include_graph options) = ([], [])"
        by (intro graph_stage_off) auto
      then show ?thesis using Some False by auto
    qed
  qed
  have d: "\<forall>q t k. GraphRetrieveCall q t k \<in> set (fst (execute env self query mode options)) \<longrightarrow> t = ?t"
    using execute_log_events[OF _ c] by fastforce
  have e: "\<forall>g q k. neo4j_available env \<and>
        snd (extract_entities_from_query env g q ?t) \<noteq> [] \<longrightarrow>
        retrieve env g q ?t k =
          (fst (extract_entities_from_query env g q ?t)
             @ fst (retrieve_general env (snd (extract_entities_from_query env g q ?t)) k),
           snd (retrieve_general env (snd (extract_entities_from_query env g q ?t)) k))"
    using retrieve_general_dispatch[OF b] by blast
  show ?thesis using a b d e tr g by simp
qed

theorem explicit_mode_general_strategy_witness:
  "py_upper (unicode_upper example_env) (lit ''person'') = lit ''PERSON'' \<and>
   filter is_graph
     (fst (execute example_env (RAGPipeline_init example_env True) (lit ''who is Moses'')
             (lit ''person'') (Some \<lparr>opt_max_results = Some 5, opt_include_graph = Some True\<rparr>)))
     = [GraphRetrieveCall (lit ''who is Moses'') (lit ''PERSON'') 20,
        ExtractCall (lit ''PERSON'') (lit ''who is Moses''),
        PersonStrategy [lit ''Moses'', lit ''Aaron''] 6,
        TopicStrategy [lit ''Moses'', lit ''Aaron''] 6,
        EventStrategy [lit ''Moses'', lit ''Aaron''] 6]"
proof -
  let ?self = "RAGPipeline_init example_env True"
  let ?o = "Some \<lparr>opt_max_results = Some 5, opt_include_graph = Some True\<rparr>"
  have h: "lit ''person'' \<in> {lit ''person'', lit ''topic'', lit ''event''}" by simp
  have u: "py_upper (unicode_upper example_env) (lit ''person'') = lit ''PERSON''"
    by (rule upper_modes)
  have x: "extract_entities_from_query example_env \<lparr>has_llm = True\<rparr> (lit ''who is Moses'')
             (lit ''PERSON'')
           = ([ExtractCall (lit ''PERSON'') (lit ''who is Moses'')], [lit ''Moses'', lit ''Aaron''])"
    by (simp add: extract_entities_from_query_def example_env_def lit_def py_strip_def is_space_def)
  have s: "graph_retriever ?self = Some \<lparr>has_llm = True\<rparr>" "get_include_graph ?o"
    "neo4j_available example_env" "MAX_RETRIEVE_RESULTS (settings example_env) = 20"
    by (simp_all add: RAGPipeline_init_def get_include_graph_def example_env_def default_settings_def)
  note t = explicit_mode_general_strategy[OF h, of example_env ?self "lit ''who is Moses''" ?o]
  note tr = t[THEN conjunct2, THEN conjunct2, THEN conjunct1]
  have "filter is_graph (fst (execute example_env ?self (lit ''who is Moses'') (lit ''person'') ?o))
     = [GraphRetrieveCall (lit ''who is Moses'') (lit ''PERSON'') 20,
        ExtractCall (lit ''PERSON'') (lit ''who is Moses''),
        PersonStrategy [lit ''Moses'', lit ''Aaron''] 6,
        TopicStrategy [lit ''Moses'', lit ''Aaron''] 6,
        EventStrategy [lit ''Moses'', lit ''Aaron''] 6]"
    unfolding tr using s by (simp add: u x k_per_type_def)
  then show ?thesis using u by simp
qed

lemma classify_stage_log: "e \<in> set (fst (classify_stage env query mode)) \<Longrightarrow> e = ClassifyCall query"
  by (auto simp: classify_stage_def classify_query_def split: if_splits)

lemma graph_name_not_used: "lit ''graph'' \<notin> set (used_names d s [])"
  by (simp add: used_names_def lit_def)

lemma result_lists_no_graph:
  "set (map fst (make_result_lists d s [])) \<subseteq> {lit ''dense'', lit ''sparse''}"
  by (auto simp: make_result_lists_def split: if_splits)

lemma execute_graph_off:
  assumes off: "\<And>qt. graph_stage env self query qt (get_include_graph options) = ([], [])"
  shows "(\<forall>e\<in>set (fst (execute env self query mode options)).
            \<not> is_graph e \<and> set (fused_sources e) \<subseteq> {lit ''dense'', lit ''sparse''}) \<and>
         (\<forall>resp. snd (execute env self query mode options) = Inr resp \<longrightarrow>
            lit ''graph'' \<notin> set (qm_used_retrievers (resp_meta resp)))"
proof -
  obtain l1 r where c: "classify_stage env query mode = (l1, r)"
    by (cases "classify_stage env query mode")
  have l1: "\<And>e. e \<in> set l1 \<Longrightarrow> e = ClassifyCall query"
    using classify_stage_log[of _ env query mode] c by simp
  have a: "\<forall>e\<in>set (fst (execute env self query mode options)).
            \<not> is_graph e \<and> set (fused_sources e) \<subseteq> {lit ''dense'', lit ''sparse''}"
  proof
    fix e assume e: "e \<in> set (fst (execute env self query mode options))"
    from execute_log_events[OF e c] show "\<not> is_graph e \<and> set (fused_sources e) \<subseteq> {lit ''dense'', lit ''sparse''}"
    proof
      assume "e \<in> set l1"
      then have "e = ClassifyCall query" by (rule l1)
      then show ?thesis by simp
    next
      assume "\<not> is_classify e \<and> (\<exists>qt. r = Inr qt \<and> event_tag e \<in> {None, Some qt} \<and>
         (is_graph e \<longrightarrow> e \<in> set (fst (graph_stage env self query qt (get_include_graph options)))) \<and>
         (fused_sources e = [] \<or> fused_sources e = map fst (make_result_lists (snd (dense_stage env query))
            (snd (sparse_stage env query))
            (snd (graph_stage env self query qt (get_include_graph options))))))"
      then obtain qt where
        g: "is_graph e \<longrightarrow> e \<in> set (fst (graph_stage env self query qt (get_include_graph options)))"
        and f: "fused_sources e = [] \<or> fused_sources e = map fst (make_result_lists (snd (dense_stage env query))
            (snd (sparse_stage env query))
            (snd (graph_stage env self query qt (get_include_graph options))))"
        by blast
      have gs: "snd (graph_stage env self query qt (get_include_graph options)) = []"
        using off[of qt] by simp
      have "\<not> is_graph e" using g off[of qt] by auto
      moreover have "set (fused_sources e) \<subseteq> {lit ''dense'', lit ''sparse''}"
        using f unfolding gs
        by (metis empty_set empty_subsetI result_lists_no_graph)
      ultimately show ?thesis by simp
    qed
  qed
  have b: "\<forall>resp. snd (execute env self query mode options) = Inr resp \<longrightarrow>
            lit ''graph'' \<notin> set (qm_used_retrievers (resp_meta resp))"
  proof (intro allI impI)
    fix resp assume resp: "snd (execute env self query mode options) = Inr resp"
    obtain l x where fr: "pipeline_front env self query mode options = (l, x)"
      by (cases "pipeline_front env self query mode options")
    show "lit ''graph'' \<notin> set (qm_used_retrievers (resp_meta resp))"
    proof (cases x)
      case (Inl err)
      then show ?thesis using resp fr by (simp add: execute_Inl)
    next
      case (Inr fs)
      have "fs_used_retrievers fs = used_names (snd (dense_stage env query)) (snd (sparse_stage env query)) []"
      proof (cases r)
        case (Inl err)
        then show ?thesis using fr Inr c by (simp add: pipeline_front_Inl)
      next
        case (Inr qt)
        then show ?thesis using fr \<open>x = Inr fs\<close> c off[of qt]
          by (auto simp: pipeline_front_Inr split: sum.splits)
      qed
      moreover have "snd (pipeline_back env self query fs) = Inr resp"
        using resp fr Inr by (simp add: execute_Inr)
      ultimately show ?thesis using pipeline_back_meta graph_name_not_used by metis
    qed
  qed
  show ?thesis using a b by blast
qed

lemma get_include_graph_without: "get_include_graph (without_graph options) = False"
  by (simp add: get_include_graph_def without_graph_def split: option.splits)

lemma get_max_results_without:
  "get_max_results (env\<lparr>neo4j_available := b, graph_person := gp, graph_topic := gt, graph_event := ge\<rparr>)
     (without_graph options) = get_max_results env options"
  by (simp add: get_max_results_def without_graph_def split: option.splits)

lemma execute_unreachable_eq:
  assumes "\<not> neo4j_available env"
  shows "execute env self query mode options
       = execute (env\<lparr>neo4j_available := b, graph_person := gp, graph_topic := gt, graph_event := ge\<rparr>)
           self query mode (without_graph options)"
proof -
  let ?env' = "env\<lparr>neo4j_available := b, graph_person := gp, graph_topic := gt, graph_event := ge\<rparr>"
  have c: "classify_stage ?env' query mode = classify_stage env query mode"
    by (simp add: classify_stage_def classify_query_def split: sum.splits)
  have d: "dense_stage ?env' query = dense_stage env query"
    by (simp add: dense_stage_def)
  have s: "sparse_stage ?env' query = sparse_stage env query"
    by (simp add: sparse_stage_def)
  have g: "\<And>qt. graph_stage env self query qt (get_include_graph options) = ([], [])"
    using assms by (simp add: graph_stage_off)
  have g': "\<And>qt. graph_stage ?env' self query qt (get_include_graph (without_graph options)) = ([], [])"
    by (simp add: graph_stage_off get_include_graph_without)
  have bk: "\<And>fs. pipeline_back ?env' self query fs = pipeline_back env self query fs"
    by (simp add: pipeline_back_def case_prod_beta cong: sum.case_cong if_cong)
  obtain l1 r where cs: "classify_stage env query mode = (l1, r)"
    by (cases "classify_stage env query mode")
  have front: "pipeline_front ?env' self query mode (without_graph options)
      = pipeline_front env self query mode options"
  proof (cases r)
    case (Inl err)
    then show ?thesis using cs c by (simp add: pipeline_front_Inl)
  next
    case (Inr qt)
    have c1: "classify_stage env query mode = (l1, Inr qt)" using cs Inr by simp
    have c2: "classify_stage ?env' query mode = (l1, Inr qt)" using c1 c by simp
    show ?thesis
      unfolding pipeline_front_Inr[OF c1] pipeline_front_Inr[OF c2] d s g g' get_max_results_without
      by simp
  qed
  show ?thesis unfolding execute_def front bk by simp
qed

text \<open>
  Claim C9. When the graph store is not available, \<open>execute\<close> gives the same trace and the
  same result as a run with \<open>include_graph\<close> set to \<open>False\<close> (whatever the graph store of
  that run is and whether or not it is available); its trace holds no graph call, a
  response does not list \<open>graph\<close> among the used retrievers, and \<open>retrieve\<close> itself returns
  the empty list without any call.
\<close>

theorem graph_unreachable_same_as_disabled:
  assumes "\<not> neo4j_available env"
  shows "execute env self query mode options
       = execute (env\<lparr>neo4j_available := b, graph_person := gp, graph_topic := gt, graph_event := ge\<rparr>)
           self query mode (without_graph options) \<and>
     (\<forall>e\<in>set (fst (execute env self query mode options)). \<not> is_graph e) \<and>
     (\<forall>resp. snd (execute env self query mode options) = Inr resp \<longrightarrow>
        lit ''graph'' \<notin> set (qm_used_retrievers (resp_meta resp))) \<and>
     (\<forall>g q t k. retrieve env g q t k = ([], []))"
proof -
  have g: "\<And>qt. graph_stage env self query qt (get_include_graph options) = ([], [])"
    using assms by (simp add: graph_stage_off)
  have r: "\<forall>g q t k. retrieve env g q t k = ([], [])"
    using assms by (simp add: retrieve_def)
  show ?thesis
    using execute_unreachable_eq[OF assms] execute_graph_off[OF g] r by blast
qed

theorem graph_unreachable_same_as_disabled_witness:
  "execute no_graph_env (RAGPipeline_init no_graph_env True) (lit ''love'') (lit ''auto'')
       (Some \<lparr>opt_max_results = Some 5, opt_include_graph = Some True\<rparr>)
     = execute example_env (RAGPipeline_init no_graph_env True) (lit ''love'') (lit ''auto'')
         (Some \<lparr>opt_max_results = Some 5, opt_include_graph = Some False\<rparr>) \<and>
   filter is_graph
     (fst (execute no_graph_env (RAGPipeline_init no_graph_env True) (lit ''love'')
             (lit ''auto'') (Some \<lparr>opt_max_results = Some 5, opt_include_graph = Some True\<rparr>)))
     = [] \<and>
   (\<exists>resp. snd (execute no_graph_env (RAGPipeline_init no_graph_env True) (lit ''love'')
                  (lit ''auto'') (Some \<lparr>opt_max_results = Some 5, opt_include_graph = Some True\<rparr>))
              = Inr resp \<and>
      lit ''graph'' \<notin> set (qm_used_retrievers (resp_meta resp))) \<and>
   (\<forall>g q t k. retrieve no_graph_env g q t k = ([], []))"
proof -
  let ?self = "RAGPipeline_init no_graph_env True"
  let ?o = "Some \<lparr>opt_max_results = Some 5, opt_include_graph = Some True\<rparr>"
  let ?run = "execute no_graph_env ?self (lit ''love'') (lit ''auto'') ?o"
  have h: "\<not> neo4j_available no_graph_env" by (simp add: no_graph_env_def)
  have e: "no_graph_env\<lparr>neo4j_available := True, graph_person := graph_person example_env,
      graph_topic := graph_topic example_env, graph_event := graph_event example_env\<rparr> = example_env"
    by (simp add: no_graph_env_def example_env_def)
  have w: "without_graph ?o = Some \<lparr>opt_max_results = Some 5, opt_include_graph = Some False\<rparr>"
    by (simp add: without_graph_def)
  note t = graph_unreachable_same_as_disabled[OF h, where self = ?self
        and query = "lit ''love''" and mode = "lit ''auto''" and options = ?o
        and b = True and gp = "graph_person example_env" and gt = "graph_topic example_env"
        and ge = "graph_event example_env", unfolded e w]
  have c: "classify_stage no_graph_env (lit ''love'') (lit ''auto'')
      = ([ClassifyCall (lit ''love'')], Inr (lit ''PERSON_QUESTION''))"
    by (simp add: classify_stage_def classify_query_def no_graph_env_def example_env_def
        valid_types_def py_upper_def py_strip_def is_space_def lit_def)
  have k: "0 \<le> fusion ?self"
    by (simp add: RAGPipeline_init_def RRFFusion_init_def no_graph_env_def example_env_def
        default_settings_def)
  have "\<And>c. \<exists>a. llm_answer no_graph_env (lit ''love'') c (lit ''PERSON_QUESTION'') = Inr a"
    by (simp add: no_graph_env_def example_env_def)
  from execute_returns[OF c k this, of ?o] obtain resp where resp: "snd ?run = Inr resp"
    by blast
  then have u: "lit ''graph'' \<notin> set (qm_used_retrievers (resp_meta resp))" using t by blast
  have f: "filter is_graph (fst ?run) = []" using t by (simp add: filter_empty_conv)
  show ?thesis using t f resp u by blast
qed

lemma parse_request_with_default:
  "requested_include_graph raw = None \<Longrightarrow>
   parse_request (with_include_graph False raw) = parse_request raw"
  by (auto simp: requested_include_graph_def with_include_graph_def parse_request_def
      parse_options_def Let_def split: option.splits)

lemma parse_request_default_false:
  "requested_include_graph raw = None \<Longrightarrow> parse_request raw = Inr request \<Longrightarrow>
   include_graph (req_options request) = False"
  by (auto simp: requested_include_graph_def parse_request_def parse_options_def Let_def
      split: option.splits if_splits sum.splits)

lemma execute_query_log:
  "fst (execute_query env raw) =
     (case parse_request raw of
        Inl e \<Rightarrow> []
      | Inr request \<Rightarrow> fst (execute env (RAGPipeline_init env True) (req_query request)
                            (mode_value (req_mode request)) (Some (request_options request))))"
  by (auto simp: execute_query_def split: sum.splits prod.splits)

text \<open>
  Claim C3. A request that leaves \<open>include_graph\<close> out is answered exactly as the same
  request with \<open>include_graph = false\<close>: the schema default is \<open>False\<close> and the endpoint
  always passes the option on. The trace holds no graph call, and \<open>fuse\<close> is given dense and
  sparse results only.
\<close>

theorem unspecified_include_graph_is_false:
  assumes "requested_include_graph raw = None"
  shows "execute_query env raw = execute_query env (with_include_graph False raw) \<and>
         (\<forall>e\<in>set (fst (execute_query env raw)).
            \<not> is_graph e \<and> set (fused_sources e) \<subseteq> {lit ''dense'', lit ''sparse''})"
proof -
  have eq: "execute_query env raw = execute_query env (with_include_graph False raw)"
    using parse_request_with_default[OF assms] by (simp add: execute_query_def)
  have "\<forall>e\<in>set (fst (execute_query env raw)).
            \<not> is_graph e \<and> set (fused_sources e) \<subseteq> {lit ''dense'', lit ''sparse''}"
  proof (cases "parse_request raw")
    case (Inl err)
    then show ?thesis by (simp add: execute_query_log)
  next
    case (Inr request)
    have "include_graph (req_options request) = False"
      using parse_request_default_false[OF assms Inr] .
    then have "get_include_graph (Some (request_options request)) = False"
      by (simp add: get_include_graph_def request_options_def)
    then have off: "\<And>qt. graph_stage env (RAGPipeline_init env True) (req_query request) qt
        (get_include_graph (Some (request_options request))) = ([], [])"
      by (simp add: graph_stage_off)
    show ?thesis using execute_graph_off[OF off] Inr by (simp add: execute_query_log)
  qed
  then show ?thesis using eq by blast
qed

theorem unspecified_include_graph_is_false_witness:
  "requested_include_graph person_request = None \<and>
   execute_query example_env person_request
     = execute_query example_env (with_include_graph False person_request) \<and>
   filter is_graph (fst (execute_query example_env person_request)) = [] \<and>
   list_all (\<lambda>e. set (fused_sources e) \<subseteq> {lit ''dense'', lit ''sparse''})
     (fst (execute_query example_env person_request)) \<and>
   FuseCall [lit ''dense'', lit ''sparse''] \<in> set (fst (execute_query example_env person_request))"
proof -
  let ?R = "\<lparr>req_query = lit ''who is Moses'', req_mode = PERSON,
             req_options = \<lparr>max_results = 5, include_graph = False\<rparr>\<rparr>"
  let ?self = "RAGPipeline_init example_env True"
  have h: "requested_include_graph person_request = None"
    by (simp add: requested_include_graph_def person_request_def)
  note t = unspecified_include_graph_is_false[OF h, of example_env]
  have a: "filter is_graph (fst (execute_query example_env person_request)) = []"
    using t by (simp add: filter_empty_conv)
  have b: "list_all (\<lambda>e. set (fused_sources e) \<subseteq> {lit ''dense'', lit ''sparse''})
     (fst (execute_query example_env person_request))"
    using t by (simp add: list_all_iff)
  have p: "parse_request person_request = Inr ?R"
    by (simp add: parse_request_def person_request_def parse_options_def parse_mode_def lit_def)
  have c: "classify_stage example_env (lit ''who is Moses'') (lit ''person'')
      = ([], Inr (lit ''PERSON''))"
    using classify_stage_explicit[of "lit ''person''" example_env] upper_modes(1)
    by (simp add: lit_def)
  have rl: "make_result_lists (snd (dense_stage example_env (lit ''who is Moses'')))
      (snd (sparse_stage example_env (lit ''who is Moses'')))
      (snd (graph_stage example_env ?self (lit ''who is Moses'') (lit ''PERSON'')
         (get_include_graph (Some (request_options ?R)))))
      = [(lit ''dense'', [example_result 1, example_result 2, example_result 3]),
         (lit ''sparse'', [example_result 2, example_result 1])]"
    by (simp add: make_result_lists_def dense_stage_def sparse_stage_def example_env_def
        graph_stage_off get_include_graph_def request_options_def)
  have "FuseCall (map fst [(lit ''dense'', [example_result 1, example_result 2, example_result 3]),
         (lit ''sparse'', [example_result 2, example_result 1])])
      \<in> set (fst (execute example_env ?self (lit ''who is Moses'') (lit ''person'')
                  (Some (request_options ?R))))"
    using fuse_call_in_front[OF c rl] by simp
  then have d: "FuseCall [lit ''dense'', lit ''sparse'']
      \<in> set (fst (execute_query example_env person_request))"
    using p by (simp add: execute_query_log)
  show ?thesis using h t a b d by blast
qed

lemma fuse_Inr_Nil:
  assumes "fuse k rl = Inr []"
  shows "all_ids rl = []"
proof -
  have "pairs_of [] = sorted_desc (map (\<lambda>d. (d, rrf_total k rl d)) (add_keys [] (all_ids rl)))"
    using fuse_Inr_pairs[OF assms] .
  then have "length (add_keys [] (all_ids rl)) = 0"
    by (metis length_map length_sort list.size(3) pairs_of_def sorted_desc_def list.map(1))
  then have "set (add_keys [] (all_ids rl)) = {}" by simp
  then show ?thesis by (simp add: set_add_keys)
qed

lemma result_lists_ids:
  "all_ids (make_result_lists d s g) = [] \<Longrightarrow> d = [] \<and> s = [] \<and> g = []"
  by (auto simp: make_result_lists_def all_ids_def split: if_splits)

lemma fuse_stage_Nil:
  assumes "snd (fuse_stage k (make_result_lists d s g)) = Inr []"
  shows "d = [] \<and> s = [] \<and> g = []"
proof (cases "make_result_lists d s g = []")
  case True
  then show ?thesis by (auto simp: make_result_lists_def split: if_splits)
next
  case False
  then have "fuse k (make_result_lists d s g) = Inr []" using assms by (simp add: fuse_stage_def)
  then show ?thesis using fuse_Inr_Nil result_lists_ids by blast
qed

lemma py_take_Nil: "1 \<le> n \<Longrightarrow> py_take n xs = [] \<Longrightarrow> xs = []"
  by (cases xs) (auto simp: py_take_def)

lemma parse_request_max_results:
  "parse_request raw = Inr request \<Longrightarrow> 1 \<le> max_results (req_options request)"
  by (auto simp: parse_request_def parse_options_def Let_def split: option.splits if_splits sum.splits)

text \<open>
  Claim C7. For a request that passes the schema, if the fused list after truncation is
  empty, the endpoint returns a response without any answer-generation call: the answer is
  the fixed apology, and the segment list and the list of used retrievers are empty.
\<close>

theorem empty_results_apology:
  assumes "parse_request raw = Inr request"
    and "pipeline_front env (RAGPipeline_init env True) (req_query request)
           (mode_value (req_mode request)) (Some (request_options request)) = (l, Inr fs)"
    and "fs_fused_results fs = []"
  shows "\<exists>resp. execute_query env raw = (l, Inr resp) \<and>
           resp_answer resp = apology_text \<and> resp_segments resp = [] \<and>
           qm_used_retrievers (resp_meta resp) = [] \<and>
           (\<forall>e\<in>set l. \<not> is_generate e)"
proof -
  let ?self = "RAGPipeline_init env True"
  let ?q = "req_query request"
  let ?m = "mode_value (req_mode request)"
  let ?o = "Some (request_options request)"
  obtain l1 r where c: "classify_stage env ?q ?m = (l1, r)"
    by (cases "classify_stage env ?q ?m")
  have l1: "\<And>e. e \<in> set l1 \<Longrightarrow> e = ClassifyCall ?q"
    using classify_stage_log[of _ env ?q ?m] c by simp
  obtain qt where qt: "r = Inr qt"
    using assms(2) c by (cases r) (simp_all add: pipeline_front_Inl)
  let ?d = "snd (dense_stage env ?q)"
  let ?s = "snd (sparse_stage env ?q)"
  let ?g = "snd (graph_stage env ?self ?q qt (get_include_graph ?o))"
  have c': "classify_stage env ?q ?m = (l1, Inr qt)" using c qt by simp
  from assms(2) obtain fused where
    fused: "snd (fuse_stage (fusion ?self) (make_result_lists ?d ?s ?g)) = Inr fused"
    and fs: "fs_fused_results fs = py_take (get_max_results env ?o) fused"
      "fs_used_retrievers fs = used_names ?d ?s ?g"
    unfolding pipeline_front_Inr[OF c'] by (auto split: sum.splits)
  have "get_max_results env ?o = max_results (req_options request)"
    by (simp add: get_max_results_def request_options_def)
  then have "1 \<le> get_max_results env ?o" using parse_request_max_results[OF assms(1)] by simp
  then have "fused = []" using fs(1) assms(3) py_take_Nil by metis
  then have "?d = [] \<and> ?s = [] \<and> ?g = []" using fused fuse_stage_Nil by blast
  then have used: "fs_used_retrievers fs = []" using fs(2) by (simp add: used_names_def)
  from pipeline_back_empty[OF assms(3), of env ?self ?q] obtain resp where
    resp: "pipeline_back env ?self ?q fs = ([], Inr resp)" "resp_answer resp = apology_text"
      "resp_segments resp = []" "qm_used_retrievers (resp_meta resp) = fs_used_retrievers fs"
    by blast
  have ex: "execute env ?self ?q ?m ?o = (l, Inr resp)"
    using execute_Inr[OF assms(2)] resp(1) by simp
  then have eq: "execute_query env raw = (l, Inr resp)"
    using assms(1) by (simp add: execute_query_def)
  have nogen: "\<forall>e\<in>set l. \<not> is_generate e"
  proof
    fix e assume "e \<in> set l"
    then have "e \<in> set (fst (pipeline_front env ?self ?q ?m ?o))" using assms(2) by simp
    from front_log_events[OF this c] show "\<not> is_generate e"
    proof
      assume "e \<in> set l1"
      then have "e = ClassifyCall (req_query request)" by (rule l1)
      then show ?thesis by simp
    qed blast
  qed
  show ?thesis using eq resp(2,3,4) used nogen by auto
qed

theorem empty_results_apology_witness:
  "\<exists>resp. execute_query empty_env plain_request
       = ([ClassifyCall (lit ''love''), DenseCall (lit ''love'') 20, SparseCall (lit ''love'') 20],
          Inr resp) \<and>
     resp_answer resp = apology_text \<and> resp_segments resp = [] \<and>
     qm_used_retrievers (resp_meta resp) = [] \<and>
     (\<forall>e\<in>set [ClassifyCall (lit ''love''), DenseCall (lit ''love'') 20,
                SparseCall (lit ''love'') 20]. \<not> is_generate e)"
proof -
  let ?R = "\<lparr>req_query = lit ''love'', req_mode = AUTO,
             req_options = \<lparr>max_results = 5, include_graph = False\<rparr>\<rparr>"
  let ?FS = "\<lparr>fs_query_type = lit ''PERSON_QUESTION'', fs_used_retrievers = [],
              fs_graph_context_data = ([], []), fs_fused_results = []\<rparr>"
  have p: "parse_request plain_request = Inr ?R"
    by (simp add: parse_request_def plain_request_def parse_options_def lit_def)
  have c: "classify_stage empty_env (lit ''love'') (lit ''auto'')
      = ([ClassifyCall (lit ''love'')], Inr (lit ''PERSON_QUESTION''))"
    by (simp add: classify_stage_def classify_query_def empty_env_def example_env_def
        valid_types_def py_upper_def py_strip_def is_space_def lit_def)
  have d: "dense_stage empty_env (lit ''love'') = ([DenseCall (lit ''love'') 20], [])"
    by (simp add: dense_stage_def empty_env_def example_env_def default_settings_def)
  have s: "sparse_stage empty_env (lit ''love'') = ([SparseCall (lit ''love'') 20], [])"
    by (simp add: sparse_stage_def empty_env_def example_env_def default_settings_def)
  have g: "graph_stage empty_env (RAGPipeline_init empty_env True) (lit ''love'')
      (lit ''PERSON_QUESTION'')
      (get_include_graph (Some (request_options ?R))) = ([], [])"
    by (simp add: graph_stage_off get_include_graph_def request_options_def)
  have f: "pipeline_front empty_env (RAGPipeline_init empty_env True) (req_query ?R)
      (mode_value (req_mode ?R)) (Some (request_options ?R))
      = ([ClassifyCall (lit ''love''), DenseCall (lit ''love'') 20, SparseCall (lit ''love'') 20],
         Inr ?FS)"
    using c d s g
    by (simp add: pipeline_front_Inr[where ?l1.0 = "[ClassifyCall (lit ''love'')]"
          and qt = "lit ''PERSON_QUESTION''"]
        make_result_lists_def fuse_stage_def used_names_def py_take_def)
  have e: "fs_fused_results ?FS = []" by simp
  show ?thesis using empty_results_apology[OF p f e] .
qed


end
